theory Spec2Isabelle
  imports Complex_Main "HOL-Library.Sublist"
begin

section \<open>Python values\<close>

text \<open>
  An exception is modelled by its class and the text \<open>str(e)\<close> gives. \<open>RequestException\<close>
  stands for whatever \<open>requests.get\<close> raises. Only subclasses of \<open>Exception\<close> occur:
  they are what \<open>except Exception\<close> catches.
\<close>

datatype exn =
    RuntimeError string
  | ValueError string
  | TypeError string
  | IndexError string
  | KeyError string
  | AttributeError string
  | OverflowError string
  | RequestException string

fun exn_str :: "exn \<Rightarrow> string" where
  "exn_str (RuntimeError m) = m"
| "exn_str (ValueError m) = m"
| "exn_str (TypeError m) = m"
| "exn_str (IndexError m) = m"
| "exn_str (KeyError m) = m"
| "exn_str (AttributeError m) = m"
| "exn_str (OverflowError m) = m"
| "exn_str (RequestException m) = m"

text \<open>
  A JSON document as \<open>json.loads\<close> builds it. A float is a rational, an infinity or
  NaN; the rounding of binary floating point is not modelled, and no property below
  depends on the value of a sum.
\<close>

datatype pyfloat = Finite rat | PosInf | NegInf | NaN

text \<open>\<open>float_add\<close> and \<open>float_mul\<close> are \<open>+\<close> and \<open>*\<close> on floats, without rounding.\<close>

fun float_add :: "pyfloat \<Rightarrow> pyfloat \<Rightarrow> pyfloat" where
  "float_add (Finite a) (Finite b) = Finite (a + b)"
| "float_add NaN y = NaN"
| "float_add x NaN = NaN"
| "float_add PosInf NegInf = NaN"
| "float_add NegInf PosInf = NaN"
| "float_add PosInf y = PosInf"
| "float_add NegInf y = NegInf"
| "float_add x PosInf = PosInf"
| "float_add x NegInf = NegInf"

fun float_mul :: "pyfloat \<Rightarrow> pyfloat \<Rightarrow> pyfloat" where
  "float_mul (Finite a) (Finite b) = Finite (a * b)"
| "float_mul NaN y = NaN"
| "float_mul x NaN = NaN"
| "float_mul (Finite a) PosInf = (if a = 0 then NaN else if 0 < a then PosInf else NegInf)"
| "float_mul (Finite a) NegInf = (if a = 0 then NaN else if 0 < a then NegInf else PosInf)"
| "float_mul PosInf (Finite b) = (if b = 0 then NaN else if 0 < b then PosInf else NegInf)"
| "float_mul NegInf (Finite b) = (if b = 0 then NaN else if 0 < b then NegInf else PosInf)"
| "float_mul PosInf PosInf = PosInf"
| "float_mul PosInf NegInf = NegInf"
| "float_mul NegInf PosInf = NegInf"
| "float_mul NegInf NegInf = PosInf"

datatype json =
    JNull
  | JBool bool
  | JInt int
  | JFloat pyfloat
  | JStr string
  | JList "json list"
  | JObj "(string \<times> json) list"

text \<open>\<open>str_int\<close> is \<open>str\<close> on an \<open>int\<close>: the decimal digits, with a minus sign.\<close>

fun digits10 :: "nat \<Rightarrow> string" where
  "digits10 n =
     (if n < 10 then [char_of (48 + n)]
      else digits10 (n div 10) @ [char_of (48 + n mod 10)])"

definition str_int :: "int \<Rightarrow> string" where
  "str_int i = (if i < 0 then CHR ''-'' # digits10 (nat (- i)) else digits10 (nat i))"

section \<open>Small utilities of adv_update.py\<close>

subsection \<open>Column letters: \<open>col_to_a1\<close>\<close>

text \<open>
  \<^verbatim>\<open>
  def col_to_a1(col_idx_0: int) -> str:
      n = col_idx_0 + 1
      s = ""
      while n:
          n, r = divmod(n - 1, 26)
          s = chr(65 + r) + s
      return s
  \<close>
  Python integers are unbounded, so the index is an \<open>int\<close>; \<open>divmod\<close> is floor
  division, as \<open>div\<close> and \<open>mod\<close> on \<open>int\<close> are. The \<open>while\<close> loop does not end for an
  index below \<open>-1\<close> (from \<open>n = -1\<close> it reaches \<open>n = -1\<close> again), so the loop is a partial
  function: not returning is the value \<open>None\<close>.
\<close>

partial_function (option) col_loop :: "int \<Rightarrow> string \<Rightarrow> string option" where
  "col_loop n s =
     (if n = 0 then Some s
      else col_loop ((n - 1) div 26) (char_of (65 + (n - 1) mod 26) # s))"

declare col_loop.simps [code]

definition col_to_a1 :: "int \<Rightarrow> string option" where
  "col_to_a1 col_idx_0 = col_loop (col_idx_0 + 1) []"

text \<open>
  The source has no inverse conversion. The spec's \<open>indexFromLetter\<close> is written here
  after the spec's words (bijective base 26 with the digits \<open>A = 1, ..., Z = 26\<close>, read
  from the left, the index being zero-based), to state the round trip.
\<close>

fun a1_value :: "int \<Rightarrow> string \<Rightarrow> int" where
  "a1_value acc [] = acc"
| "a1_value acc (c # cs) = a1_value (acc * 26 + (of_char c - 64)) cs"

definition index_from_letter :: "string \<Rightarrow> int" where
  "index_from_letter s = a1_value 0 s - 1"

definition is_upper_letter :: "char \<Rightarrow> bool" where
  "is_upper_letter c = (65 \<le> (of_char c :: nat) \<and> (of_char c :: nat) \<le> 90)"

subsection \<open>Team names: \<open>normalize_team_name\<close>\<close>

text \<open>
  \<^verbatim>\<open>
  def normalize_team_name(s: Any) -> str:
      t = str(s or "").strip().lower()
      t = t.replace("\u00a0", " ")
      t = re.sub(r"\s+", " ", t)
      t = t.replace("la clippers", "los angeles clippers")
      t = t.replace("la lakers", "los angeles lakers")
      return t
  \<close>
  A Python \<open>str\<close> is a sequence of code points. The model reads a \<open>char\<close> as a code
  point below 256 (Latin-1), so the no-break space \<open>U+00A0\<close> is the character
  \<open>CHR 0xA0\<close>. On a \<open>str\<close> argument \<open>str(s or "")\<close> is the argument itself.

  \<open>is_space\<close> is \<open>str.isspace\<close> on one code point below 256; \<open>str.strip()\<close> and the
  pattern \<open>\s\<close> of \<open>re\<close> on a \<open>str\<close> use the same set. \<open>lower_char\<close> is \<open>str.lower\<close>
  there: the capitals \<open>A..Z\<close>, \<open>U+00C0..U+00D6\<close> and \<open>U+00D8..U+00DE\<close> move up by 32.
\<close>

definition is_space :: "char \<Rightarrow> bool" where
  "is_space c = (of_char c \<in> {9, 10, 11, 12, 13, 28, 29, 30, 31, 32, 133, 160 :: nat})"

definition lower_char :: "char \<Rightarrow> char" where
  "lower_char c =
     (let n = (of_char c :: nat) in
      if (65 \<le> n \<and> n \<le> 90) \<or> (192 \<le> n \<and> n \<le> 214) \<or> (216 \<le> n \<and> n \<le> 222)
      then char_of (n + 32) else c)"

definition py_strip :: "string \<Rightarrow> string" where
  "py_strip s = rev (dropWhile is_space (rev (dropWhile is_space s)))"

definition py_lower :: "string \<Rightarrow> string" where
  "py_lower s = map lower_char s"

text \<open>
  \<open>str.replace(old, new)\<close> replaces the occurrences of \<open>old\<close> found from the left,
  without overlap: \<open>replace_scan\<close> is that scan for a non-empty \<open>old\<close>. For the empty
  \<open>old\<close> Python puts \<open>new\<close> before every character and at the end.
\<close>

function replace_scan :: "string \<Rightarrow> string \<Rightarrow> string \<Rightarrow> string" where
  "replace_scan old new [] = []"
| "replace_scan old new (c # cs) =
     (if old \<noteq> [] \<and> prefix old (c # cs)
      then new @ replace_scan old new (drop (length old) (c # cs))
      else c # replace_scan old new cs)"
  by pat_completeness auto
termination
  by (relation "measure (\<lambda>(old, new, s). length s)") auto

definition py_replace :: "string \<Rightarrow> string \<Rightarrow> string \<Rightarrow> string" where
  "py_replace old new s =
     (if old = [] then new @ concat (map (\<lambda>c. c # new) s) else replace_scan old new s)"

text \<open>
  \<open>re.sub(r"\s+", " ", t)\<close>: every maximal run of white space becomes one space.
\<close>

function re_sub_spaces :: "string \<Rightarrow> string" where
  "re_sub_spaces [] = []"
| "re_sub_spaces (c # cs) =
     (if is_space c then CHR '' '' # re_sub_spaces (dropWhile is_space cs)
      else c # re_sub_spaces cs)"
  by pat_completeness auto
termination
  by (relation "measure length") (auto simp: length_dropWhile_le less_Suc_eq_le)

definition normalize_team_name :: "string \<Rightarrow> string" where
  "normalize_team_name s =
     (let t = py_lower (py_strip s);
          t = py_replace [CHR 0xA0] '' '' t;
          t = re_sub_spaces t;
          t = py_replace ''la clippers'' ''los angeles clippers'' t;
          t = py_replace ''la lakers'' ''los angeles lakers'' t
      in t)"

section \<open>The resilient fetcher: \<open>nba_fetch\<close>\<close>

text \<open>
  \<^verbatim>\<open>
  def jitter_sleep(i: int) -> None:
      time.sleep(SLEEP_BASE * (1.6 ** i) + random.uniform(0, 0.5))

  def nba_fetch(url, params):
      last_err = None
      for i in range(MAX_TRIES):
          try:
              r = requests.get(url, headers=NBA_HEADERS, params=params, timeout=REQ_TIMEOUT)
              if r.status_code == 200:
                  return r.json()
              last_err = RuntimeError(f"NBA HTTP {r.status_code}: {r.text[:250]}")
          except Exception as e:
              last_err = e
          jitter_sleep(i)
      raise RuntimeError(f"NBA fetch failed after {MAX_TRIES} tries: {last_err}")
  \<close>
  The network is a function from the round \<open>i\<close> to what \<open>requests.get\<close> does in that
  round: it raises, or it gives a response with a status code, a text and the result of
  \<open>r.json()\<close>, which raises on a body that is not JSON. \<open>attempt\<close> is the body of the
  \<open>try\<close> statement: \<open>Inr\<close> is the value returned, \<open>Inl\<close> the new \<open>last_err\<close>. The call
  \<open>r.json()\<close> stands inside the \<open>try\<close>, so what it raises is caught as well.
\<close>

datatype http_outcome =
    Raised exn
  | Response int string "exn + json"

definition attempt :: "http_outcome \<Rightarrow> exn + json" where
  "attempt out =
     (case out of
        Raised e \<Rightarrow> Inl e
      | Response status_code text body \<Rightarrow>
          if status_code = 200 then body
          else Inl (RuntimeError (''NBA HTTP '' @ str_int status_code @ '': '' @ take 250 text)))"

text \<open>
  \<open>SLEEP_BASE = float(os.environ.get("SLEEP_BASE", "1.25"))\<close> is any float, negative
  ones, the infinities and NaN included. \<open>1.6 ** i\<close> is \<open>(8 / 5) ^ i\<close>; it is a double up
  to \<open>i = 1510\<close> and raises \<open>OverflowError\<close> from \<open>i = 1511\<close> on.

  \<open>time.sleep(secs)\<close> converts the duration to a whole number of nanoseconds in 64 bits
  and raises \<open>ValueError\<close> for NaN, \<open>OverflowError\<close> for a duration outside that range,
  and \<open>ValueError\<close> for a negative duration. Otherwise it sleeps: \<open>Inr d\<close> is a sleep of
  \<open>d\<close> seconds. The texts are those of CPython 3.11. What the operating system does
  with a sleep of centuries is not modelled.
\<close>

definition pow_1_6 :: "nat \<Rightarrow> exn + pyfloat" where
  "pow_1_6 i =
     (if i < 1511 then Inr (Finite ((8 / 5) ^ i))
      else Inl (OverflowError (''(34, '' @ [CHR 0x27] @ ''Numerical result out of range'' @
                  [CHR 0x27] @ '')'')))"

definition time_sleep :: "pyfloat \<Rightarrow> exn + rat" where
  "time_sleep secs =
     (case secs of
        NaN \<Rightarrow> Inl (ValueError ''Invalid value NaN (not a number)'')
      | PosInf \<Rightarrow> Inl (OverflowError ''timestamp out of range for platform time_t'')
      | NegInf \<Rightarrow> Inl (OverflowError ''timestamp out of range for platform time_t'')
      | Finite d \<Rightarrow>
          if 2 ^ 63 < \<bar>d\<bar> * 10 ^ 9
          then Inl (OverflowError ''timestamp out of range for platform time_t'')
          else if d < 0 then Inl (ValueError ''sleep length must be non-negative'')
          else Inr d)"

text \<open>
  The sleep of round \<open>i\<close>; \<open>uniform i\<close> is the value of \<open>random.uniform(0, 0.5)\<close> in that
  round. The power is computed first, so when it raises nothing else happens.
\<close>

definition jitter_sleep :: "pyfloat \<Rightarrow> (nat \<Rightarrow> rat) \<Rightarrow> nat \<Rightarrow> exn + rat" where
  "jitter_sleep SLEEP_BASE uniform i =
     (case pow_1_6 i of
        Inl e \<Rightarrow> Inl e
      | Inr p \<Rightarrow> time_sleep (float_add (float_mul SLEEP_BASE p) (Finite (uniform i))))"

text \<open>
  The loop over \<open>range(MAX_TRIES)\<close>, with the number of requests made and the sleeps
  taken so far. It ends at a \<open>return\<close>, or when the range is used up, with \<open>last_err\<close>,
  or with the exception of a sleep: \<open>jitter_sleep(i)\<close> stands outside the \<open>try\<close>, so what
  it raises leaves the loop and \<open>nba_fetch\<close>.
\<close>

datatype loop_end =
    Returned json
  | Exhausted "exn option"
  | Propagated exn

record fetch_run =
  outcome :: loop_end
  tries :: nat
  sleeps :: "rat list"

fun nba_fetch_loop ::
  "pyfloat \<Rightarrow> (nat \<Rightarrow> rat) \<Rightarrow> (nat \<Rightarrow> http_outcome) \<Rightarrow> nat list \<Rightarrow> exn option \<Rightarrow> nat \<Rightarrow> rat list \<Rightarrow> fetch_run" where
  "nba_fetch_loop SLEEP_BASE uniform net [] last_err n sl =
     \<lparr>outcome = Exhausted last_err, tries = n, sleeps = sl\<rparr>"
| "nba_fetch_loop SLEEP_BASE uniform net (i # is) last_err n sl =
     (case attempt (net i) of
        Inr j \<Rightarrow> \<lparr>outcome = Returned j, tries = Suc n, sleeps = sl\<rparr>
      | Inl e \<Rightarrow>
          (case jitter_sleep SLEEP_BASE uniform i of
             Inl x \<Rightarrow> \<lparr>outcome = Propagated x, tries = Suc n, sleeps = sl\<rparr>
           | Inr d \<Rightarrow> nba_fetch_loop SLEEP_BASE uniform net is (Some e) (Suc n) (sl @ [d])))"

definition str_last_err :: "exn option \<Rightarrow> string" where
  "str_last_err last_err = (case last_err of None \<Rightarrow> ''None'' | Some e \<Rightarrow> exn_str e)"

record fetch_result =
  returned :: "exn + json"
  requests :: nat
  slept :: "rat list"

definition nba_fetch ::
  "int \<Rightarrow> pyfloat \<Rightarrow> (nat \<Rightarrow> rat) \<Rightarrow> (nat \<Rightarrow> http_outcome) \<Rightarrow> fetch_result" where
  "nba_fetch MAX_TRIES SLEEP_BASE uniform net =
     (let run = nba_fetch_loop SLEEP_BASE uniform net [0..<nat MAX_TRIES] None 0 []
      in \<lparr>returned =
            (case outcome run of
               Returned j \<Rightarrow> Inr j
             | Exhausted last_err \<Rightarrow>
                 Inl (RuntimeError (''NBA fetch failed after '' @ str_int MAX_TRIES @
                        '' tries: '' @ str_last_err last_err))
             | Propagated x \<Rightarrow> Inl x),
          requests = tries run, slept = sleeps run\<rparr>)"

section \<open>Library functions and the sheet\<close>

text \<open>
  A naive \<open>datetime\<close> is the number of microseconds since \<open>0001-01-01 00:00:00\<close>, so
  that \<open><\<close> on \<open>int\<close> is the comparison of naive datetimes and \<open>timedelta(days=n)\<close> is
  \<open>n * 86400000000\<close>.

  The functions of the Python library that read and print dates and read floats are
  not part of the repository: they are the fields of \<open>pylib\<close>, and every property
  below holds for each choice of them.
  \<^item> \<open>strptime lib s fmt\<close> is \<open>datetime.strptime(s, fmt)\<close>, \<open>None\<close> when it raises;
  \<^item> \<open>fromisoformat lib s\<close> is \<open>datetime.fromisoformat(s).replace(tzinfo=None)\<close>, \<open>None\<close>
    when it raises;
  \<^item> \<open>strftime lib dt fmt\<close> is \<open>dt.strftime(fmt)\<close>;
  \<^item> \<open>float_str lib s\<close> is \<open>float(s)\<close> on a \<open>str\<close>, \<open>None\<close> when it raises;
  \<^item> \<open>str_json lib v\<close> is \<open>str(v)\<close> on a float, a list or a dict.
\<close>

type_synonym datetime = int

record pylib =
  strptime :: "string \<Rightarrow> string \<Rightarrow> datetime option"
  fromisoformat :: "string \<Rightarrow> datetime option"
  strftime :: "datetime \<Rightarrow> string \<Rightarrow> string"
  float_str :: "string \<Rightarrow> pyfloat option"
  str_json :: "json \<Rightarrow> string"

text \<open>
  \<open>datetime.now() - timedelta(days=LOOKBACK_DAYS)\<close>. \<open>timedelta\<close> raises for more than
  999999999 days, and the subtraction raises when the result leaves the years 1 to 9999.
\<close>

definition datetime_max :: datetime where
  "datetime_max = 3652059 * 86400000000 - 1"

definition sub_days :: "datetime \<Rightarrow> int \<Rightarrow> exn + datetime" where
  "sub_days now days =
     (if 999999999 < \<bar>days\<bar>
      then Inl (OverflowError (''days='' @ str_int days @ ''; must have magnitude <= 999999999''))
      else if now - days * 86400000000 < 0 \<or> datetime_max < now - days * 86400000000
      then Inl (OverflowError ''date value out of range'')
      else Inr (now - days * 86400000000))"

text \<open>
  \<^verbatim>\<open>
  def parse_sheet_date(value):
      if value is None or value == "":
          return None
      s = str(value).strip()
      for fmt in ("%m/%d/%Y %H:%M", "%m/%d/%Y %H:%M:%S", "%m/%d/%Y", "%Y-%m-%d",
                  "%Y-%m-%d %H:%M:%S"):
          try:
              return datetime.strptime(s, fmt)
          except Exception:
              pass
      try:
          return datetime.fromisoformat(s.replace("Z", "+00:00")).replace(tzinfo=None)
      except Exception:
          return None
  \<close>
  A cell read from the sheet is a string.
\<close>

fun first_some :: "('a \<Rightarrow> 'b option) \<Rightarrow> 'a list \<Rightarrow> 'b option" where
  "first_some f [] = None"
| "first_some f (x # xs) = (case f x of Some y \<Rightarrow> Some y | None \<Rightarrow> first_some f xs)"

definition parse_sheet_date :: "pylib \<Rightarrow> string \<Rightarrow> datetime option" where
  "parse_sheet_date lib v =
     (if v = [] then None
      else let s = py_strip v in
        case first_some (strptime lib s)
               [''%m/%d/%Y %H:%M'', ''%m/%d/%Y %H:%M:%S'', ''%m/%d/%Y'', ''%Y-%m-%d'',
                ''%Y-%m-%d %H:%M:%S''] of
          Some dt \<Rightarrow> Some dt
        | None \<Rightarrow> fromisoformat lib (py_replace ''Z'' ''+00:00'' s))"

text \<open>
  \<^verbatim>\<open>
  def ensure_headers(svc, tab, required):
      header = get_values(svc, tab, "1:1")
      if not header or not header[0]:
          raise RuntimeError(f"{tab} missing header row")
      headers = [str(h).strip() for h in header[0]]
      existing = {h: i for i, h in enumerate(headers) if h}
      missing = [h for h in required if h not in existing]
      if missing:
          start_col = len(headers)
          new_headers = headers + missing
          end_col = len(new_headers) - 1
          a1 = f"{col_to_a1(0)}1:{col_to_a1(end_col)}1"
          update_values(svc, tab, a1, [new_headers])
          headers = new_headers
          existing = {h: i for i, h in enumerate(headers) if h}
      return existing
  \<close>
  \<open>header\<close> is what \<open>get_values\<close> returns for row 1. \<open>header_index\<close> is the dict
  comprehension: of two columns with the same name the later one stays. The result
  carries the dict and, when headers are missing, the range and the row written with
  \<open>update_values\<close> (the range is \<open>None\<close> if \<open>col_to_a1\<close> did not return).
\<close>

definition header_index :: "string list \<Rightarrow> (string \<rightharpoonup> nat)" where
  "header_index headers =
     map_of (rev (filter (\<lambda>(h, i). h \<noteq> []) (zip headers [0..<length headers])))"

record headers_result =
  existing :: "string \<rightharpoonup> nat"
  written :: "(string option \<times> string list) option"

definition ensure_headers :: "string \<Rightarrow> string list list \<Rightarrow> string list \<Rightarrow> exn + headers_result" where
  "ensure_headers tab header required =
     (if header = [] \<or> hd header = []
      then Inl (RuntimeError (tab @ '' missing header row''))
      else
        let headers = map py_strip (hd header);
            missing = filter (\<lambda>h. header_index headers h = None) required
        in if missing \<noteq> []
           then
             let new_headers = headers @ missing;
                 end_col = int (length new_headers) - 1;
                 a1 = (case (col_to_a1 0, col_to_a1 end_col) of
                         (Some a, Some b) \<Rightarrow> Some (a @ ''1:'' @ b @ ''1'')
                       | _ \<Rightarrow> None)
             in Inr \<lparr>existing = header_index new_headers, written = Some (a1, new_headers)\<rparr>
           else Inr \<lparr>existing = header_index headers, written = None\<rparr>)"

text \<open>
  \<^verbatim>\<open>
  def read_completed_index(svc):
      col = ensure_headers(svc, TAB_COMPLETED, COMPLETED_EXPECTED)
      data = get_values(svc, TAB_COMPLETED, "A2:ZZ")
      cutoff = datetime.now() - timedelta(days=LOOKBACK_DAYS)
      espn_to_info = {}
      row_refs = []
      for i, r in enumerate(data, start=2):
          def getv(name):
              idx = col[name]
              return r[idx] if idx < len(r) else ""
          team = getv("Team")
          opp = getv("Opponent")
          homeaway = str(getv("HomeAway") or "").strip().lower()
          gdate_raw = getv("Game Date")
          espn_id = str(getv("ESPN Game ID") or "").strip()
          nba_id_existing = str(getv("NBA Game ID") or "").strip()
          gdt = parse_sheet_date(gdate_raw)
          if not espn_id or not gdt:
              continue
          if gdt < cutoff:
              continue
          row_refs.append({"rownum": i, "espn_id": espn_id, "nba_id_existing": nba_id_existing})
          if espn_id not in espn_to_info and homeaway == "home":
              espn_to_info[espn_id] = {"date": gdt, "home": str(team), "away": str(opp)}
      return {"col": col, "espn_to_info": espn_to_info, "row_refs": row_refs}
  \<close>
  \<open>header\<close> and \<open>data\<close> are what the two calls of \<open>get_values\<close> return, \<open>now\<close> is
  \<open>datetime.now()\<close>. A dict keeps the order in which its keys were put in, so
  \<open>espn_to_info\<close> is an association list in that order. \<open>col[name]\<close> raises
  \<open>KeyError\<close> for a name that is not a key.
\<close>

definition COMPLETED_EXPECTED :: "string list" where
  "COMPLETED_EXPECTED =
     [''Team'', ''Opponent'', ''HomeAway'', ''Game Date'', ''ESPN Game ID'', ''NBA Game ID'',
      ''Points For'', ''Points Allowed'']"

definition bind_exn :: "exn + 'a \<Rightarrow> ('a \<Rightarrow> exn + 'b) \<Rightarrow> exn + 'b" where
  "bind_exn m f = (case m of Inl e \<Rightarrow> Inl e | Inr x \<Rightarrow> f x)"

definition getv :: "(string \<rightharpoonup> nat) \<Rightarrow> string list \<Rightarrow> string \<Rightarrow> exn + string" where
  "getv col r name =
     (case col name of
        None \<Rightarrow> Inl (KeyError name)
      | Some idx \<Rightarrow> Inr (if idx < length r then r ! idx else ''''))"

record row_ref =
  rownum :: nat
  espn_id :: string
  nba_id_existing :: string

record game_info =
  info_date :: datetime
  info_home :: string
  info_away :: string

record completed_index =
  completed_col :: "string \<rightharpoonup> nat"
  espn_to_info :: "(string \<times> game_info) list"
  row_refs :: "row_ref list"

definition completed_row ::
  "pylib \<Rightarrow> (string \<rightharpoonup> nat) \<Rightarrow> datetime \<Rightarrow> nat \<Rightarrow> string list \<Rightarrow>
   (string \<times> game_info) list \<times> row_ref list \<Rightarrow> exn + (string \<times> game_info) list \<times> row_ref list" where
  "completed_row lib col cutoff i r acc =
     bind_exn (getv col r ''Team'') (\<lambda>team.
     bind_exn (getv col r ''Opponent'') (\<lambda>opp.
     bind_exn (getv col r ''HomeAway'') (\<lambda>homeaway_raw.
     bind_exn (getv col r ''Game Date'') (\<lambda>gdate_raw.
     bind_exn (getv col r ''ESPN Game ID'') (\<lambda>espn_raw.
     bind_exn (getv col r ''NBA Game ID'') (\<lambda>nba_raw.
       let homeaway = py_lower (py_strip homeaway_raw);
           espn = py_strip espn_raw;
           nba = py_strip nba_raw
       in case parse_sheet_date lib gdate_raw of
            None \<Rightarrow> Inr acc
          | Some gdt \<Rightarrow>
              if espn = [] then Inr acc
              else if gdt < cutoff then Inr acc
              else
                let refs = snd acc @ [\<lparr>rownum = i, espn_id = espn, nba_id_existing = nba\<rparr>];
                    infos =
                      (if map_of (fst acc) espn = None \<and> homeaway = ''home''
                       then fst acc @ [(espn, \<lparr>info_date = gdt, info_home = team, info_away = opp\<rparr>)]
                       else fst acc)
                in Inr (infos, refs)))))))"

fun completed_rows ::
  "pylib \<Rightarrow> (string \<rightharpoonup> nat) \<Rightarrow> datetime \<Rightarrow> nat \<Rightarrow> string list list \<Rightarrow>
   (string \<times> game_info) list \<times> row_ref list \<Rightarrow> exn + (string \<times> game_info) list \<times> row_ref list" where
  "completed_rows lib col cutoff i [] acc = Inr acc"
| "completed_rows lib col cutoff i (r # rs) acc =
     bind_exn (completed_row lib col cutoff i r acc)
       (completed_rows lib col cutoff (Suc i) rs)"

definition read_completed_index ::
  "pylib \<Rightarrow> datetime \<Rightarrow> int \<Rightarrow> string \<Rightarrow> string list list \<Rightarrow> string list list \<Rightarrow> exn + completed_index" where
  "read_completed_index lib now LOOKBACK_DAYS TAB_COMPLETED header data =
     bind_exn (ensure_headers TAB_COMPLETED header COMPLETED_EXPECTED) (\<lambda>hr.
     bind_exn (sub_days now LOOKBACK_DAYS) (\<lambda>cutoff.
     bind_exn (completed_rows lib (existing hr) cutoff 2 data ([], [])) (\<lambda>acc.
       Inr \<lparr>completed_col = existing hr, espn_to_info = fst acc, row_refs = snd acc\<rparr>)))"

section \<open>The stats row builder: \<open>fetch_adv_row\<close>\<close>

subsection \<open>Python operations on JSON values\<close>

text \<open>
  The responses are whatever JSON the API sends, so the functions below meet values of
  every JSON type. \<open>truthy\<close> is Python's truth value, \<open>py_get\<close> is \<open>x.get(key)\<close>,
  \<open>subscript\<close> is \<open>x[i]\<close> for an index that is a non-negative \<open>int\<close> or \<open>None\<close> (the
  indices of the source come out of \<open>enumerate\<close> or \<open>dict.get\<close>), \<open>py_len\<close> is \<open>len(x)\<close>,
  \<open>py_iter\<close> lists what a \<open>for\<close> loop over \<open>x\<close> visits, \<open>py_str\<close> is \<open>str(x)\<close> and
  \<open>str_or_empty\<close> is \<open>str(x or "")\<close>. Each raises where Python raises, with the text of
  the exception (\<open>CHR 0x27\<close> is the single quote).
\<close>

fun type_name :: "json \<Rightarrow> string" where
  "type_name JNull = ''NoneType''"
| "type_name (JBool b) = ''bool''"
| "type_name (JInt i) = ''int''"
| "type_name (JFloat f) = ''float''"
| "type_name (JStr s) = ''str''"
| "type_name (JList xs) = ''list''"
| "type_name (JObj kvs) = ''dict''"

fun truthy :: "json \<Rightarrow> bool" where
  "truthy JNull = False"
| "truthy (JBool b) = b"
| "truthy (JInt i) = (i \<noteq> 0)"
| "truthy (JFloat f) = (f \<noteq> Finite 0)"
| "truthy (JStr s) = (s \<noteq> [])"
| "truthy (JList xs) = (xs \<noteq> [])"
| "truthy (JObj kvs) = (kvs \<noteq> [])"

definition py_get :: "json \<Rightarrow> string \<Rightarrow> exn + json" where
  "py_get x key =
     (case x of
        JObj kvs \<Rightarrow> Inr (case map_of kvs key of None \<Rightarrow> JNull | Some v \<Rightarrow> v)
      | _ \<Rightarrow> Inl (AttributeError (CHR 0x27 # type_name x @ [CHR 0x27] @
                 '' object has no attribute '' @ [CHR 0x27] @ ''get'' @ [CHR 0x27])))"

definition subscript :: "json \<Rightarrow> nat option \<Rightarrow> exn + json" where
  "subscript x i =
     (case x of
        JList xs \<Rightarrow>
          (case i of
             None \<Rightarrow> Inl (TypeError ''list indices must be integers or slices, not NoneType'')
           | Some k \<Rightarrow> if k < length xs then Inr (xs ! k)
                       else Inl (IndexError ''list index out of range''))
      | JStr s \<Rightarrow>
          (case i of
             None \<Rightarrow> Inl (TypeError (''string indices must be integers, not '' @
                         [CHR 0x27] @ ''NoneType'' @ [CHR 0x27]))
           | Some k \<Rightarrow> if k < length s then Inr (JStr [s ! k])
                       else Inl (IndexError ''string index out of range''))
      | JObj kvs \<Rightarrow>
          (case i of
             None \<Rightarrow> Inl (KeyError ''None'')
           | Some k \<Rightarrow> Inl (KeyError (str_int (int k))))
      | _ \<Rightarrow> Inl (TypeError (CHR 0x27 # type_name x @ [CHR 0x27] @
                 '' object is not subscriptable'')))"

definition py_len :: "json \<Rightarrow> exn + nat" where
  "py_len x =
     (case x of
        JList xs \<Rightarrow> Inr (length xs)
      | JStr s \<Rightarrow> Inr (length s)
      | JObj kvs \<Rightarrow> Inr (length kvs)
      | _ \<Rightarrow> Inl (TypeError (''object of type '' @ [CHR 0x27] @ type_name x @ [CHR 0x27] @
                 '' has no len()'')))"

definition py_iter :: "json \<Rightarrow> exn + json list" where
  "py_iter x =
     (case x of
        JList xs \<Rightarrow> Inr xs
      | JStr s \<Rightarrow> Inr (map (\<lambda>c. JStr [c]) s)
      | JObj kvs \<Rightarrow> Inr (map (\<lambda>kv. JStr (fst kv)) kvs)
      | _ \<Rightarrow> Inl (TypeError (CHR 0x27 # type_name x @ [CHR 0x27] @ '' object is not iterable'')))"

definition py_str :: "pylib \<Rightarrow> json \<Rightarrow> string" where
  "py_str lib x =
     (case x of
        JStr s \<Rightarrow> s
      | JNull \<Rightarrow> ''None''
      | JBool b \<Rightarrow> (if b then ''True'' else ''False'')
      | JInt i \<Rightarrow> str_int i
      | _ \<Rightarrow> str_json lib x)"

definition str_or_empty :: "pylib \<Rightarrow> json \<Rightarrow> string" where
  "str_or_empty lib x = (if truthy x then py_str lib x else [])"

text \<open>
  \<^verbatim>\<open>
  def is_num(x: Any) -> bool:
      try:
          return x is not None and x != "" and float(x) == float(x)
      except Exception:
          return False
  \<close>
  \<open>py_float\<close> is \<open>float(x)\<close>; \<open>float(x) == float(x)\<close> is false exactly for NaN.
  An \<open>int\<close> is rounded to the nearest double, ties to even: the largest double is
  \<open>2 ^ 1024 - 2 ^ 971\<close>, and from \<open>2 ^ 1024 - 2 ^ 970\<close> on the rounding would give
  \<open>2 ^ 1024\<close>, so \<open>float\<close> raises \<open>OverflowError\<close>. The texts of the exceptions of
  \<open>float\<close> are never seen: \<open>is_num\<close> catches them.
  \<open>float_of\<close> is \<open>float(x)\<close> where \<open>is_num\<close> has already held. \<open>float_half\<close> is
  \<open>/ 2\<close> on floats, without rounding.
\<close>

definition py_float :: "pylib \<Rightarrow> json \<Rightarrow> exn + pyfloat" where
  "py_float lib x =
     (case x of
        JBool b \<Rightarrow> Inr (Finite (if b then 1 else 0))
      | JInt i \<Rightarrow>
          if \<bar>i\<bar> < 2 ^ 1024 - 2 ^ 970 then Inr (Finite (of_int i))
          else Inl (OverflowError ''int too large to convert to float'')
      | JFloat f \<Rightarrow> Inr f
      | JStr s \<Rightarrow>
          (case float_str lib s of
             Some f \<Rightarrow> Inr f
           | None \<Rightarrow> Inl (ValueError (''could not convert string to float: '' @ s)))
      | _ \<Rightarrow> Inl (TypeError (''float() argument must be a string or a real number, not '' @
                 [CHR 0x27] @ type_name x @ [CHR 0x27])))"

definition is_num :: "pylib \<Rightarrow> json \<Rightarrow> bool" where
  "is_num lib x =
     (x \<noteq> JNull \<and> x \<noteq> JStr [] \<and>
      (case py_float lib x of Inr f \<Rightarrow> f \<noteq> NaN | Inl e \<Rightarrow> False))"

fun float_half :: "pyfloat \<Rightarrow> pyfloat" where
  "float_half (Finite a) = Finite (a / 2)"
| "float_half x = x"

definition float_of :: "pylib \<Rightarrow> json \<Rightarrow> pyfloat" where
  "float_of lib x = (case py_float lib x of Inr f \<Rightarrow> f | Inl e \<Rightarrow> NaN)"

subsection \<open>Reading a response\<close>

text \<open>
  \<^verbatim>\<open>
  def parse_resultset(j, name):
      rs = j.get("resultSets")
      target = None
      if isinstance(rs, list):
          for item in rs:
              if item and item.get("name") == name:
                  target = item
                  break
      if not target:
          raise RuntimeError(f"Could not find {name} in resultSets")
      headers = target.get("headers")
      rows = target.get("rowSet")
      if not headers or rows is None:
          raise RuntimeError(f"{name} missing headers/rows")
      return headers, rows

  def idx_map(headers):
      return {str(h).strip(): i for i, h in enumerate(headers)}
  \<close>
\<close>

fun find_target :: "json list \<Rightarrow> string \<Rightarrow> exn + json option" where
  "find_target [] name = Inr None"
| "find_target (item # items) name =
     (if truthy item
      then bind_exn (py_get item ''name'') (\<lambda>n.
             if n = JStr name then Inr (Some item) else find_target items name)
      else find_target items name)"

definition parse_resultset :: "json \<Rightarrow> string \<Rightarrow> exn + json \<times> json" where
  "parse_resultset j name =
     bind_exn (py_get j ''resultSets'') (\<lambda>rs.
     bind_exn (case rs of JList items \<Rightarrow> find_target items name | _ \<Rightarrow> Inr None) (\<lambda>target.
       case target of
         None \<Rightarrow> Inl (RuntimeError (''Could not find '' @ name @ '' in resultSets''))
       | Some t \<Rightarrow>
           bind_exn (py_get t ''headers'') (\<lambda>headers.
           bind_exn (py_get t ''rowSet'') (\<lambda>rows.
             if \<not> truthy headers \<or> rows = JNull
             then Inl (RuntimeError (name @ '' missing headers/rows''))
             else Inr (headers, rows)))))"

definition idx_map :: "pylib \<Rightarrow> json \<Rightarrow> exn + (string \<rightharpoonup> nat)" where
  "idx_map lib headers =
     bind_exn (py_iter headers) (\<lambda>hs.
       Inr (map_of (rev (zip (map (\<lambda>h. py_strip (py_str lib h)) hs) [0..<length hs]))))"

text \<open>
  \<^verbatim>\<open>
  def pick_home_away(rows, hidx):
      mi = hidx.get("MATCHUP")
      if mi is None:
          return rows[0], rows[1] if len(rows) > 1 else rows[0]
      home = None
      away = None
      for r in rows:
          m = str(r[mi] or "")
          if " vs " in m:
              home = r
          if " @ " in m:
              away = r
      if home is None or away is None:
          if len(rows) >= 2:
              return rows[0], rows[1]
          return rows[0], rows[0]
      return home, away
  \<close>
\<close>

fun scan_matchup ::
  "pylib \<Rightarrow> nat \<Rightarrow> json list \<Rightarrow> json option \<times> json option \<Rightarrow> exn + json option \<times> json option" where
  "scan_matchup lib mi [] ha = Inr ha"
| "scan_matchup lib mi (r # rs) ha =
     bind_exn (subscript r (Some mi)) (\<lambda>v.
       let m = str_or_empty lib v;
           home = (if sublist '' vs '' m then Some r else fst ha);
           away = (if sublist '' @ '' m then Some r else snd ha)
       in scan_matchup lib mi rs (home, away))"

definition first_two :: "json \<Rightarrow> exn + json \<times> json" where
  "first_two rows =
     bind_exn (subscript rows (Some 0)) (\<lambda>r0.
     bind_exn (py_len rows) (\<lambda>n.
       if 1 < n then bind_exn (subscript rows (Some 1)) (\<lambda>r1. Inr (r0, r1))
       else bind_exn (subscript rows (Some 0)) (\<lambda>r1. Inr (r0, r1))))"

definition pick_home_away :: "pylib \<Rightarrow> json \<Rightarrow> (string \<rightharpoonup> nat) \<Rightarrow> exn + json \<times> json" where
  "pick_home_away lib rows hidx =
     (case hidx ''MATCHUP'' of
        None \<Rightarrow> first_two rows
      | Some mi \<Rightarrow>
          bind_exn (py_iter rows) (\<lambda>rs.
          bind_exn (scan_matchup lib mi rs (None, None)) (\<lambda>ha.
            case ha of
              (Some home, Some away) \<Rightarrow> Inr (home, away)
            | _ \<Rightarrow>
                bind_exn (py_len rows) (\<lambda>n.
                  if 2 \<le> n
                  then bind_exn (subscript rows (Some 0)) (\<lambda>r0.
                       bind_exn (subscript rows (Some 1)) (\<lambda>r1. Inr (r0, r1)))
                  else bind_exn (subscript rows (Some 0)) (\<lambda>r0.
                       bind_exn (subscript rows (Some 0)) (\<lambda>r1. Inr (r0, r1)))))))"

subsection \<open>Building the row\<close>

text \<open>
  \<^verbatim>\<open>
  def team_full(row, idx) -> str:
      city = ""
      name = ""
      if idx.get("TEAM_CITY") is not None:
          city = str(row[idx["TEAM_CITY"]] or "")
      elif idx.get("TEAM_CITY_NAME") is not None:
          city = str(row[idx["TEAM_CITY_NAME"]] or "")
      if idx.get("TEAM_NAME") is not None:
          name = str(row[idx["TEAM_NAME"]] or "")
      full = f"{city} {name}".strip()
      return full if full else str(name or city or "").strip()

  def build_key(game_dt, home_team, away_team):
      if not game_dt:
          return ""
      ymd = game_dt.strftime("%Y%m%d")
      return f"{ymd}|{normalize_team_name(home_team)}|{normalize_team_name(away_team)}"
  \<close>
\<close>

definition team_full :: "pylib \<Rightarrow> json \<Rightarrow> (string \<rightharpoonup> nat) \<Rightarrow> exn + string" where
  "team_full lib row idx =
     bind_exn
       (if idx ''TEAM_CITY'' \<noteq> None
        then bind_exn (subscript row (idx ''TEAM_CITY'')) (\<lambda>v. Inr (str_or_empty lib v))
        else if idx ''TEAM_CITY_NAME'' \<noteq> None
        then bind_exn (subscript row (idx ''TEAM_CITY_NAME'')) (\<lambda>v. Inr (str_or_empty lib v))
        else Inr []) (\<lambda>city.
     bind_exn
       (if idx ''TEAM_NAME'' \<noteq> None
        then bind_exn (subscript row (idx ''TEAM_NAME'')) (\<lambda>v. Inr (str_or_empty lib v))
        else Inr []) (\<lambda>name.
       let full = py_strip (city @ '' '' @ name)
       in Inr (if full \<noteq> [] then full
               else py_strip (if name \<noteq> [] then name else if city \<noteq> [] then city else []))))"

definition build_key :: "pylib \<Rightarrow> datetime option \<Rightarrow> string \<Rightarrow> string \<Rightarrow> string" where
  "build_key lib game_dt home_team away_team =
     (case game_dt of
        None \<Rightarrow> []
      | Some dt \<Rightarrow>
          strftime lib dt ''%Y%m%d'' @ ''|'' @ normalize_team_name home_team @ ''|'' @
          normalize_team_name away_team)"

text \<open>
  The columns of the output table, in the order in which a row is written.
  \<open>adv_column name\<close> is \<open>ADV_COLUMNS.index(name)\<close> for a name of the list.
\<close>

definition ADV_COLUMNS :: "string list" where
  "ADV_COLUMNS =
     [''Game Date'', ''Key'', ''Game ID'', ''Home Team'', ''Away Team'', ''Home Pts'',
      ''Away Pts'', ''Total Pts'', ''Home Poss'', ''Away Poss'', ''Poss Avg'', ''Home OffRtg'',
      ''Away OffRtg'', ''Home eFG%'', ''Away eFG%'', ''Home TS%'', ''Away TS%'', ''Home FTr'',
      ''Away FTr'', ''Home TOV%'', ''Away TOV%'', ''Home 3PAr'', ''Away 3PAr'', ''Home ORB%'',
      ''Away ORB%'', ''Status'', ''Last Attempt'']"

definition adv_column :: "string \<Rightarrow> nat" where
  "adv_column name = length (takeWhile (\<lambda>h. h \<noteq> name) ADV_COLUMNS)"

text \<open>
  \<^verbatim>\<open>
  def h(field):
      i = aix.get(field)
      return home_adv[i] if i is not None else ""
  def a(field):
      i = aix.get(field)
      return away_adv[i] if i is not None else ""
  home_poss = h("POSS")
  away_poss = a("POSS")
  ...
  home_off = h("OFF_RATING")
  away_off = a("OFF_RATING")
  home_efg = h("EFG_PCT")
  ...
  away_orb = a("OREB_PCT")
  \<close>
  \<open>field_of\<close> is \<open>h\<close> and \<open>a\<close>; \<open>field_pairs\<close> reads the home and the away value of each
  field in turn, in the order of the source, which is also the order of the row.
\<close>

definition field_of :: "json \<Rightarrow> (string \<rightharpoonup> nat) \<Rightarrow> string \<Rightarrow> exn + json" where
  "field_of row aix field =
     (case aix field of None \<Rightarrow> Inr (JStr []) | Some i \<Rightarrow> subscript row (Some i))"

fun field_pairs :: "json \<Rightarrow> json \<Rightarrow> (string \<rightharpoonup> nat) \<Rightarrow> string list \<Rightarrow> exn + json list" where
  "field_pairs home_adv away_adv aix [] = Inr []"
| "field_pairs home_adv away_adv aix (field # others) =
     bind_exn (field_of home_adv aix field) (\<lambda>h.
     bind_exn (field_of away_adv aix field) (\<lambda>a.
     bind_exn (field_pairs home_adv away_adv aix others) (\<lambda>rest. Inr (h # a # rest))))"

text \<open>
  \<^verbatim>\<open>
  def fetch_adv_row(nba_game_id, game_dt_hint, existing_key):
      trad = nba_fetch(URL_TRAD, params)
      adv = nba_fetch(URL_ADV, params)
      trad_headers, trad_rows = parse_resultset(trad, "TeamStats")
      adv_headers, adv_rows = parse_resultset(adv, "TeamStats")
      tix = idx_map(trad_headers)
      aix = idx_map(adv_headers)
      home_adv, away_adv = pick_home_away(adv_rows, aix)
      home_trad, away_trad = pick_home_away(trad_rows, tix)
      home_team = team_full(home_adv, aix)
      away_team = team_full(away_adv, aix)
      home_pts = home_trad[tix.get("PTS")]
      away_pts = away_trad[tix.get("PTS")]
      total_pts = (float(home_pts) + float(away_pts)) \
          if is_num(home_pts) and is_num(away_pts) else ""
      home_poss = h("POSS")
      away_poss = a("POSS")
      poss_avg = ((float(home_poss) + float(away_poss)) / 2) \
          if is_num(home_poss) and is_num(away_poss) else ""
      ...
      game_date_value = ""
      if game_dt_hint:
          game_date_value = game_dt_hint.strftime("%m/%d/%Y %H:%M")
      key_value = existing_key.strip() if existing_key \
          else build_key(game_dt_hint, home_team, away_team)
      row = [game_date_value, key_value, str(nba_game_id), str(home_team), str(away_team),
             home_pts, away_pts, total_pts, home_poss, away_poss, poss_avg,
             home_off, away_off, ..., home_orb, away_orb, "OK", now_iso()]
      if not is_num(home_pts) or not is_num(away_pts):
          row[ADV_COLUMNS.index("Status")] = "ERR: missing points"
      return row
  \<close>
  \<open>trad_fetch\<close> and \<open>adv_fetch\<close> are what the two calls of \<open>nba_fetch\<close> give (a value
  or the exception raised), \<open>now_iso\<close> is what \<open>now_iso()\<close> returns. A cell of the row is
  a JSON value: a string of the source is a \<open>JStr\<close>, the empty cell is \<open>JStr []\<close>.
\<close>

definition fetch_adv_row ::
  "pylib \<Rightarrow> string \<Rightarrow> exn + json \<Rightarrow> exn + json \<Rightarrow> string \<Rightarrow> datetime option \<Rightarrow> string \<Rightarrow>
   exn + json list" where
  "fetch_adv_row lib now_iso trad_fetch adv_fetch nba_game_id game_dt_hint existing_key =
     bind_exn trad_fetch (\<lambda>trad.
     bind_exn adv_fetch (\<lambda>adv.
     bind_exn (parse_resultset trad ''TeamStats'') (\<lambda>(trad_headers, trad_rows).
     bind_exn (parse_resultset adv ''TeamStats'') (\<lambda>(adv_headers, adv_rows).
     bind_exn (idx_map lib trad_headers) (\<lambda>tix.
     bind_exn (idx_map lib adv_headers) (\<lambda>aix.
     bind_exn (pick_home_away lib adv_rows aix) (\<lambda>(home_adv, away_adv).
     bind_exn (pick_home_away lib trad_rows tix) (\<lambda>(home_trad, away_trad).
     bind_exn (team_full lib home_adv aix) (\<lambda>home_team.
     bind_exn (team_full lib away_adv aix) (\<lambda>away_team.
     bind_exn (subscript home_trad (tix ''PTS'')) (\<lambda>home_pts.
     bind_exn (subscript away_trad (tix ''PTS'')) (\<lambda>away_pts.
     bind_exn (field_pairs home_adv away_adv aix [''POSS'']) (\<lambda>poss.
     bind_exn (field_pairs home_adv away_adv aix
                 [''OFF_RATING'', ''EFG_PCT'', ''TS_PCT'', ''FTA_RATE'', ''TM_TOV_PCT'',
                  ''FG3A_RATE'', ''OREB_PCT'']) (\<lambda>rest.
       let total_pts =
             (if is_num lib home_pts \<and> is_num lib away_pts
              then JFloat (float_add (float_of lib home_pts) (float_of lib away_pts))
              else JStr []);
           home_poss = poss ! 0;
           away_poss = poss ! 1;
           poss_avg =
             (if is_num lib home_poss \<and> is_num lib away_poss
              then JFloat (float_half (float_add (float_of lib home_poss) (float_of lib away_poss)))
              else JStr []);
           game_date_value =
             (case game_dt_hint of None \<Rightarrow> [] | Some dt \<Rightarrow> strftime lib dt ''%m/%d/%Y %H:%M'');
           key_value =
             (if existing_key \<noteq> [] then py_strip existing_key
              else build_key lib game_dt_hint home_team away_team);
           row =
             [JStr game_date_value, JStr key_value, JStr nba_game_id, JStr home_team,
              JStr away_team, home_pts, away_pts, total_pts, home_poss, away_poss, poss_avg] @
             rest @ [JStr ''OK'', JStr now_iso]
       in Inr (if \<not> is_num lib home_pts \<or> \<not> is_num lib away_pts
               then row[adv_column ''Status'' := JStr ''ERR: missing points'']
               else row)))))))))))))))"

section \<open>The upsert orchestrator: \<open>main\<close>\<close>

subsection \<open>The index of the output table: \<open>read_adv_index\<close>\<close>

text \<open>
  \<open>upper_char\<close> is \<open>str.upper\<close> on one code point below 256: the small letters \<open>a..z\<close>,
  \<open>U+00E0..U+00F6\<close> and \<open>U+00F8..U+00FE\<close> move down by 32 and \<open>U+00DF\<close> becomes \<open>SS\<close>.
  The capitals of \<open>U+00B5\<close> and \<open>U+00FF\<close> lie above 255; the model leaves these two
  characters as they are. Neither is a letter of \<open>OK\<close>, so the comparison of a status
  with \<open>"OK"\<close> is not affected.
\<close>

definition upper_char :: "char \<Rightarrow> string" where
  "upper_char c =
     (let n = (of_char c :: nat) in
      if (97 \<le> n \<and> n \<le> 122) \<or> (224 \<le> n \<and> n \<le> 246) \<or> (248 \<le> n \<and> n \<le> 254)
      then [char_of (n - 32)]
      else if n = 223 then ''SS''
      else [c])"

definition py_upper :: "string \<Rightarrow> string" where
  "py_upper s = concat (map upper_char s)"

text \<open>
  \<^verbatim>\<open>
  def read_adv_index(svc):
      col = ensure_headers(svc, TAB_ADV, ADV_COLUMNS)
      data = get_values(svc, TAB_ADV, "A2:ZZ")
      gid_idx = col["Game ID"]
      status_idx = col["Status"]
      key_idx = col["Key"]
      gid_to_row = {}
      gid_to_status = {}
      gid_to_key = {}
      for i, r in enumerate(data, start=2):
          gid = str(r[gid_idx]).strip() if gid_idx < len(r) else ""
          if not gid:
              continue
          gid_to_row[gid] = i
          gid_to_status[gid] = str(r[status_idx]).strip().upper() if status_idx < len(r) else ""
          gid_to_key[gid] = str(r[key_idx]).strip() if key_idx < len(r) else ""
      return {"col": col, "gid_to_row": gid_to_row, "gid_to_status": gid_to_status,
              "gid_to_key": gid_to_key}
  \<close>
  \<open>header\<close> and \<open>data\<close> are what the two calls of \<open>get_values\<close> return; the cells are
  strings. \<open>adv_row\<close> is the body of the loop for the row \<open>r\<close> with the number \<open>i\<close>,
  \<open>adv_rows\<close> the loop. \<open>dict_item d key\<close> is \<open>d[key]\<close>.
\<close>

record adv_index =
  adv_col :: "string \<rightharpoonup> nat"
  gid_to_row :: "string \<rightharpoonup> nat"
  gid_to_status :: "string \<rightharpoonup> string"
  gid_to_key :: "string \<rightharpoonup> string"

definition adv_gid :: "nat \<Rightarrow> string list \<Rightarrow> string" where
  "adv_gid gid_idx r = (if gid_idx < length r then py_strip (r ! gid_idx) else [])"

definition adv_status :: "nat \<Rightarrow> string list \<Rightarrow> string" where
  "adv_status status_idx r =
     (if status_idx < length r then py_upper (py_strip (r ! status_idx)) else [])"

definition adv_key :: "nat \<Rightarrow> string list \<Rightarrow> string" where
  "adv_key key_idx r = (if key_idx < length r then py_strip (r ! key_idx) else [])"

definition adv_row :: "nat \<Rightarrow> nat \<Rightarrow> nat \<Rightarrow> nat \<Rightarrow> string list \<Rightarrow> adv_index \<Rightarrow> adv_index" where
  "adv_row gid_idx status_idx key_idx i r idx =
     (let gid = adv_gid gid_idx r
      in if gid = [] then idx
         else idx\<lparr>gid_to_row := (gid_to_row idx)(gid \<mapsto> i),
                  gid_to_status := (gid_to_status idx)(gid \<mapsto> adv_status status_idx r),
                  gid_to_key := (gid_to_key idx)(gid \<mapsto> adv_key key_idx r)\<rparr>)"

fun adv_rows :: "nat \<Rightarrow> nat \<Rightarrow> nat \<Rightarrow> nat \<Rightarrow> string list list \<Rightarrow> adv_index \<Rightarrow> adv_index" where
  "adv_rows gid_idx status_idx key_idx i [] idx = idx"
| "adv_rows gid_idx status_idx key_idx i (r # rs) idx =
     adv_rows gid_idx status_idx key_idx (Suc i) rs (adv_row gid_idx status_idx key_idx i r idx)"



subsection \<open>The walk over the candidates\<close>

text \<open>
  \<^verbatim>\<open>
  processed = 0
  updates = []
  appends = []
  for nba_id, dt_hint in nba_games:
      if processed >= MAX_GAMES_PER_RUN:
          break
      existing_row = gid_to_row.get(nba_id)
      existing_status = gid_to_status.get(nba_id, "")
      existing_key = gid_to_key.get(nba_id, "")
      # Skip rows already OK
      if existing_row and existing_status == "OK":
          continue
      processed += 1
      try:
          rowvals = fetch_adv_row(nba_id, dt_hint, existing_key)
      except Exception as e:
          rowvals = [""] * len(ADV_COLUMNS)
          rowvals[ADV_COLUMNS.index("Game ID")] = str(nba_id)
          rowvals[ADV_COLUMNS.index("Status")] = f"ERR: {str(e)[:160]}"
          rowvals[ADV_COLUMNS.index("Last Attempt")] = now_iso()
      if existing_row:
          updates.append((existing_row, rowvals))
      else:
          appends.append(rowvals)
      time.sleep(0.9 + random.uniform(0, 0.6))  # be polite
  \<close>
  \<open>error_row\<close> is the row of the \<open>except\<close> branch, \<open>build_row\<close> the \<open>try\<close> statement,
  \<open>skip_ok\<close> the test before \<open>continue\<close> (a row number is true when it is not 0), and
  \<open>walk\<close> the loop, from a state \<open>processed\<close>, \<open>updates\<close>, \<open>appends\<close>. The rounds that
  build a row are numbered from 0: \<open>fetched k\<close> is what the two calls of \<open>nba_fetch\<close>
  inside \<open>fetch_adv_row\<close> give in round \<open>k\<close>, and \<open>clock k\<close> is what \<open>now_iso()\<close> returns
  in that round. The number of the round is the value of \<open>processed\<close> before the round.
\<close>

record walk_state =
  processed :: nat
  updates :: "(nat \<times> json list) list"
  appends :: "json list list"

definition error_row :: "string \<Rightarrow> exn \<Rightarrow> string \<Rightarrow> json list" where
  "error_row nba_id e now_iso =
     (replicate (length ADV_COLUMNS) (JStr []))
       [adv_column ''Game ID'' := JStr nba_id,
        adv_column ''Status'' := JStr (''ERR: '' @ take 160 (exn_str e)),
        adv_column ''Last Attempt'' := JStr now_iso]"

definition build_row ::
  "pylib \<Rightarrow> string \<Rightarrow> (exn + json) \<times> (exn + json) \<Rightarrow> string \<Rightarrow> datetime \<Rightarrow> string \<Rightarrow> json list" where
  "build_row lib now_iso fetched nba_id dt_hint existing_key =
     (case fetch_adv_row lib now_iso (fst fetched) (snd fetched) nba_id (Some dt_hint) existing_key of
        Inr rowvals \<Rightarrow> rowvals
      | Inl e \<Rightarrow> error_row nba_id e now_iso)"

definition skip_ok :: "adv_index \<Rightarrow> string \<Rightarrow> bool" where
  "skip_ok idx nba_id =
     ((case gid_to_row idx nba_id of None \<Rightarrow> False | Some existing_row \<Rightarrow> existing_row \<noteq> 0) \<and>
      (case gid_to_status idx nba_id of None \<Rightarrow> [] | Some existing_status \<Rightarrow> existing_status) = ''OK'')"

fun walk ::
  "pylib \<Rightarrow> int \<Rightarrow> (nat \<Rightarrow> (exn + json) \<times> (exn + json)) \<Rightarrow> (nat \<Rightarrow> string) \<Rightarrow> adv_index \<Rightarrow>
   (string \<times> datetime) list \<Rightarrow> walk_state \<Rightarrow> walk_state" where
  "walk lib MAX_GAMES_PER_RUN fetched clock idx [] st = st"
| "walk lib MAX_GAMES_PER_RUN fetched clock idx ((nba_id, dt_hint) # rest) st =
     (if MAX_GAMES_PER_RUN \<le> int (processed st) then st
      else if skip_ok idx nba_id then walk lib MAX_GAMES_PER_RUN fetched clock idx rest st
      else
        let existing_row = gid_to_row idx nba_id;
            existing_key = (case gid_to_key idx nba_id of None \<Rightarrow> [] | Some k \<Rightarrow> k);
            rowvals = build_row lib (clock (processed st)) (fetched (processed st)) nba_id dt_hint
                        existing_key
        in walk lib MAX_GAMES_PER_RUN fetched clock idx rest
             (case existing_row of
                Some row_number \<Rightarrow>
                  if row_number \<noteq> 0
                  then st\<lparr>processed := Suc (processed st), updates := updates st @ [(row_number, rowvals)]\<rparr>
                  else st\<lparr>processed := Suc (processed st), appends := appends st @ [rowvals]\<rparr>
              | None \<Rightarrow> st\<lparr>processed := Suc (processed st), appends := appends st @ [rowvals]\<rparr>))"

text \<open>
  \<^verbatim>\<open>
  last_col_letter = col_to_a1(len(ADV_COLUMNS) - 1)
  if updates:
      updates.sort(key=lambda x: x[0])
      for rownum, vals in updates:
          a1 = f"A{rownum}:{last_col_letter}{rownum}"
          update_values(svc, TAB_ADV, a1, [vals])
  if appends:
      append_values(svc, TAB_ADV, f"A:{last_col_letter}", appends)
  \<close>
  \<open>commit\<close> lists the calls of \<open>update_values\<close> and \<open>append_values\<close> in the order in which
  they are made, each with its range and its values (the range is \<open>None\<close> if \<open>col_to_a1\<close>
  did not return). \<open>list.sort\<close> is stable, as \<open>sort_key\<close> is.
\<close>

datatype store_op =
    UpdateValues nat "string option" "json list"
  | AppendValues "string option" "json list list"

definition commit :: "walk_state \<Rightarrow> store_op list" where
  "commit st =
     (let last_col_letter = col_to_a1 (int (length ADV_COLUMNS) - 1)
      in map (\<lambda>(row_number, vals).
            UpdateValues row_number
              (map_option (\<lambda>l. ''A'' @ str_int (int row_number) @ '':'' @ l @ str_int (int row_number))
                 last_col_letter) vals)
           (sort_key fst (updates st)) @
         (if appends st \<noteq> []
          then [AppendValues (map_option (\<lambda>l. ''A:'' @ l) last_col_letter) (appends st)]
          else []))"

subsection \<open>The candidates and the sheet\<close>






section \<open>Properties\<close>

subsection \<open>Column letters\<close>

text \<open>
  The loop invariant: started at a non-negative \<open>n\<close> with the letters \<open>s\<close> already
  produced, the loop returns, it only puts capital letters in front of \<open>s\<close>, and reading
  these letters back in base 26 adds \<open>n\<close> to the value read so far.
\<close>

lemma col_loop_inv:
  "0 \<le> n \<Longrightarrow>
   \<exists>t. col_loop n s = Some (t @ s) \<and> list_all is_upper_letter t \<and>
       (\<forall>acc. a1_value acc (t @ r) = a1_value (acc * 26 ^ length t + n) r)"
proof (induction "nat n" arbitrary: n s r rule: less_induct)
  case less
  show ?case
  proof (cases "n = 0")
    case True
    then show ?thesis by (subst col_loop.simps) simp
  next
    case False
    let ?q = "(n - 1) div 26"
    let ?c = "char_of (65 + (n - 1) mod 26) :: char"
    from False less.prems have pos: "0 < n" by simp
    then have q0: "0 \<le> ?q" and qn: "nat ?q < nat n" by auto
    from less.hyps [OF qn q0, of "?c # s" "?c # r"] obtain t where
      t: "col_loop ?q (?c # s) = Some (t @ ?c # s)"
      and u: "list_all is_upper_letter t"
      and v: "\<And>acc. a1_value acc (t @ ?c # r) = a1_value (acc * 26 ^ length t + ?q) (?c # r)"
      by blast
    have m: "0 \<le> (n - 1) mod 26" "(n - 1) mod 26 < 26" by simp_all
    have small: "(65 + (n - 1) mod 26) mod 256 = 65 + (n - 1) mod 26"
      using m by (intro mod_pos_pos_trivial) auto
    have oc: "(of_char ?c :: int) = 65 + (n - 1) mod 26"
      using small by (simp add: of_char_of)
    have "int (of_char ?c) = (of_char ?c :: int)"
      by (simp only: of_nat_of_char)
    with oc m have uc: "is_upper_letter ?c"
      unfolding is_upper_letter_def by linarith
    have "col_loop n s = Some ((t @ [?c]) @ s)"
      using False t by (subst col_loop.simps) simp
    moreover have "list_all is_upper_letter (t @ [?c])"
      using u uc by simp
    moreover have "a1_value acc ((t @ [?c]) @ r) = a1_value (acc * 26 ^ length (t @ [?c]) + n) r"
      for acc
    proof -
      have "a1_value acc ((t @ [?c]) @ r) =
            a1_value ((acc * 26 ^ length t + ?q) * 26 + ((n - 1) mod 26 + 1)) r"
        using v [of acc] oc by simp
      also have "(acc * 26 ^ length t + ?q) * 26 + ((n - 1) mod 26 + 1) =
                 acc * 26 ^ length (t @ [?c]) + n"
        by (simp add: algebra_simps)
      finally show ?thesis .
    qed
    ultimately show ?thesis by blast
  qed
qed

lemma col_to_a1_round_trip:
  assumes "0 \<le> i"
  shows "\<exists>s. col_to_a1 i = Some s \<and> list_all is_upper_letter s \<and> index_from_letter s = i"
proof -
  from assms have "0 \<le> i + 1" by simp
  from col_loop_inv [OF this, of "[]" "[]"] show ?thesis
    by (auto simp: col_to_a1_def index_from_letter_def)
qed

text \<open>
  Claim C9. \<open>col_to_a1\<close> is bijective base 26: index 0 gives \<open>A\<close>, 25 gives \<open>Z\<close>, 26
  gives \<open>AA\<close>; for every non-negative index the conversion returns a word of capital
  letters which the inverse conversion reads back as the index; hence two non-negative
  indices with the same letters are equal.
\<close>

theorem col_to_a1_bijective_base26:
  "col_to_a1 0 = Some ''A'' \<and> col_to_a1 25 = Some ''Z'' \<and> col_to_a1 26 = Some ''AA'' \<and>
   (\<forall>i. 0 \<le> i \<longrightarrow>
      (\<exists>s. col_to_a1 i = Some s \<and> list_all is_upper_letter s \<and> index_from_letter s = i)) \<and>
   (\<forall>i j. 0 \<le> i \<longrightarrow> 0 \<le> j \<longrightarrow> col_to_a1 i = col_to_a1 j \<longrightarrow> i = j)"
proof -
  have e0: "col_to_a1 0 = Some ''A''"
    unfolding col_to_a1_def by (simp add: col_loop.simps char_of_def)
  have e25: "col_to_a1 25 = Some ''Z''"
    unfolding col_to_a1_def by (simp add: col_loop.simps char_of_def)
  have e26: "col_to_a1 26 = Some ''AA''"
    unfolding col_to_a1_def by (simp add: col_loop.simps char_of_def)
  have inj: "i = j" if "0 \<le> i" "0 \<le> j" "col_to_a1 i = col_to_a1 j" for i j
  proof -
    from col_to_a1_round_trip [OF that(1)] obtain s where
      s: "col_to_a1 i = Some s" "index_from_letter s = i" by blast
    from col_to_a1_round_trip [OF that(2)] obtain t where
      t: "col_to_a1 j = Some t" "index_from_letter t = j" by blast
    from s t that(3) show ?thesis by simp
  qed
  from e0 e25 e26 col_to_a1_round_trip inj show ?thesis by blast
qed

theorem col_to_a1_bijective_base26_witness:
  "col_to_a1 701 = Some ''ZZ'' \<and> index_from_letter ''ZZ'' = 701 \<and>
   (\<exists>s. col_to_a1 701 = Some s \<and> list_all is_upper_letter s \<and> index_from_letter s = 701)"
proof -
  have z: "col_to_a1 701 = Some ''ZZ''"
    unfolding col_to_a1_def by (simp add: col_loop.simps char_of_def)
  have "(0::int) \<le> 701" by simp
  with col_to_a1_bijective_base26 have
    "\<exists>s. col_to_a1 701 = Some s \<and> list_all is_upper_letter s \<and> index_from_letter s = 701"
    by blast
  with z show ?thesis by (simp add: index_from_letter_def)
qed

subsection \<open>Team names\<close>

text \<open>
  The shape of a result of \<open>normalize_team_name\<close>: \<open>spaced\<close> says that every white-space
  character is a space followed by a character that is not white space; \<open>head_ok\<close> and
  \<open>last_ok\<close> say that the first and the last character are not white space.
\<close>

fun spaced :: "string \<Rightarrow> bool" where
  "spaced [] = True"
| "spaced (c # cs) =
     ((if is_space c then c = CHR '' '' \<and> cs \<noteq> [] \<and> \<not> is_space (hd cs) else True) \<and> spaced cs)"

definition head_ok :: "string \<Rightarrow> bool" where
  "head_ok s = (s = [] \<or> \<not> is_space (hd s))"

definition last_ok :: "string \<Rightarrow> bool" where
  "last_ok s = (s = [] \<or> \<not> is_space (last s))"

text \<open>
  \<open>no_overlap q new\<close>: putting \<open>new\<close> into a text cannot complete an occurrence of
  \<open>q\<close>. No non-empty end of \<open>q\<close> starts \<open>new\<close> or is started by it, no non-empty start
  of \<open>q\<close> ends \<open>new\<close>, and \<open>q\<close> does not occur in \<open>new\<close>.
\<close>

definition no_overlap :: "string \<Rightarrow> string \<Rightarrow> bool" where
  "no_overlap q new =
     (list_all (\<lambda>u. u = [] \<or> (\<not> prefix u new \<and> \<not> prefix new u)) (suffixes q) \<and>
      list_all (\<lambda>a. a = [] \<or> \<not> suffix a new) (prefixes q) \<and>
      \<not> sublist q new)"

lemma no_overlapD1: "no_overlap q new \<Longrightarrow> suffix u q \<Longrightarrow> u \<noteq> [] \<Longrightarrow> \<not> prefix u new \<and> \<not> prefix new u"
  unfolding no_overlap_def list_all_iff by (metis in_set_suffixes)

lemma no_overlapD2: "no_overlap q new \<Longrightarrow> prefix a q \<Longrightarrow> a \<noteq> [] \<Longrightarrow> \<not> suffix a new"
  unfolding no_overlap_def list_all_iff by (metis in_set_prefixes)

lemma no_overlapD3: "no_overlap q new \<Longrightarrow> \<not> sublist q new"
  unfolding no_overlap_def by simp

lemma replace_scan_prefix:
  "no_overlap q new \<Longrightarrow> suffix u q \<Longrightarrow> prefix u (replace_scan old new s) \<Longrightarrow> prefix u s"
proof (induction old new s arbitrary: u rule: replace_scan.induct)
  case (1 old new)
  then show ?case by simp
next
  case (2 old new c cs)
  note no = "2.prems"(1)
  show ?case
  proof (cases "u = []")
    case True
    then show ?thesis by simp
  next
    case False
    show ?thesis
    proof (cases "old \<noteq> [] \<and> prefix old (c # cs)")
      case True
      with "2.prems"(3) have "prefix u (new @ replace_scan old new (drop (length old) (c # cs)))"
        by simp
      moreover have "prefix new (new @ replace_scan old new (drop (length old) (c # cs)))"
        by simp
      ultimately have "prefix u new \<or> prefix new u" by (rule prefix_same_cases)
      with no_overlapD1 [OF no "2.prems"(2) False] show ?thesis by blast
    next
      case no_match: False
      from False obtain d u' where u: "u = d # u'" by (cases u) auto
      from no_match "2.prems"(3) u have d: "d = c" and p: "prefix u' (replace_scan old new cs)"
        by auto
      from "2.prems"(2) u have "suffix u' q" by (auto dest: suffix_ConsD)
      from "2.IH"(2) [OF no_match no this p] have "prefix u' cs" .
      with u d show ?thesis by simp
    qed
  qed
qed

lemma replace_scan_append_free:
  assumes no: "no_overlap q new" and r: "\<not> sublist q r"
  shows "\<not> sublist q (new @ r)"
proof
  assume "sublist q (new @ r)"
  then consider "sublist q new" | "sublist q r"
    | a b where "q = a @ b" "suffix a new" "prefix b r"
    unfolding sublist_append by blast
  then show False
  proof cases
    case 1
    with no_overlapD3 [OF no] show ?thesis by simp
  next
    case 2
    with r show ?thesis by simp
  next
    case 3
    show ?thesis
    proof (cases "a = []")
      case True
      with 3 r show ?thesis by auto
    next
      case False
      from 3(1) have "prefix a q" by simp
      from no_overlapD2 [OF no this False] 3(2) show ?thesis by simp
    qed
  qed
qed

lemma sublist_drop_imp: "sublist q (drop n s) \<Longrightarrow> sublist q s"
  by (meson sublist_order.order_trans suffix_drop suffix_imp_sublist)

lemma replace_scan_creates_none:
  "no_overlap q new \<Longrightarrow> \<not> sublist q s \<Longrightarrow> \<not> sublist q (replace_scan old new s)"
proof (induction old new s rule: replace_scan.induct)
  case (1 old new)
  then show ?case by simp
next
  case (2 old new c cs)
  note no = "2.prems"(1)
  show ?case
  proof (cases "old \<noteq> [] \<and> prefix old (c # cs)")
    case True
    from "2.prems"(2) have "\<not> sublist q (drop (length old) (c # cs))"
      using sublist_drop_imp by blast
    from "2.IH"(1) [OF True no this]
    have "\<not> sublist q (new @ replace_scan old new (drop (length old) (c # cs)))"
      by (rule replace_scan_append_free [OF no])
    with True show ?thesis by simp
  next
    case False
    from "2.prems"(2) have "\<not> sublist q cs" by (auto simp: sublist_Cons_right)
    from "2.IH"(2) [OF False no this] have a: "\<not> sublist q (replace_scan old new cs)" .
    have eq: "replace_scan old new (c # cs) = c # replace_scan old new cs"
      by (simp only: replace_scan.simps False if_False)
    have "\<not> prefix q (replace_scan old new (c # cs))"
    proof
      assume "prefix q (replace_scan old new (c # cs))"
      from replace_scan_prefix [OF no _ this] have "prefix q (c # cs)" by simp
      with "2.prems"(2) show False by auto
    qed
    with a show ?thesis unfolding eq by (simp add: sublist_Cons_right)
  qed
qed

lemma replace_scan_removes_all:
  "no_overlap old new \<Longrightarrow> old \<noteq> [] \<Longrightarrow> \<not> sublist old (replace_scan old new s)"
proof (induction old new s rule: replace_scan.induct)
  case (1 old new)
  then show ?case by (cases old) auto
next
  case (2 old new c cs)
  note no = "2.prems"(1)
  show ?case
  proof (cases "old \<noteq> [] \<and> prefix old (c # cs)")
    case True
    from "2.IH"(1) [OF True no "2.prems"(2)]
    have "\<not> sublist old (new @ replace_scan old new (drop (length old) (c # cs)))"
      by (rule replace_scan_append_free [OF no])
    with True show ?thesis by simp
  next
    case False
    from "2.IH"(2) [OF False no "2.prems"(2)]
    have a: "\<not> sublist old (replace_scan old new cs)" .
    have eq: "replace_scan old new (c # cs) = c # replace_scan old new cs"
      by (simp only: replace_scan.simps False if_False)
    have "\<not> prefix old (replace_scan old new (c # cs))"
    proof
      assume "prefix old (replace_scan old new (c # cs))"
      from replace_scan_prefix [OF no _ this] have "prefix old (c # cs)" by simp
      with False "2.prems"(2) show False by simp
    qed
    with a show ?thesis unfolding eq by (simp add: sublist_Cons_right)
  qed
qed

lemma replace_scan_absent:
  "\<not> sublist old s \<Longrightarrow> replace_scan old new s = s"
proof (induction old new s rule: replace_scan.induct)
  case (1 old new)
  then show ?case by simp
next
  case (2 old new c cs)
  from "2.prems" have np: "\<not> prefix old (c # cs)" and ns: "\<not> sublist old cs"
    by (auto simp: sublist_Cons_right)
  from np have f: "\<not> (old \<noteq> [] \<and> prefix old (c # cs))" by simp
  have "replace_scan old new (c # cs) = c # replace_scan old new cs"
    by (simp only: replace_scan.simps f if_False)
  with "2.IH"(2) [OF f ns] show ?case by simp
qed

lemma no_overlap_clippers: "no_overlap ''la clippers'' ''los angeles clippers''" by code_simp
lemma no_overlap_lakers: "no_overlap ''la lakers'' ''los angeles lakers''" by code_simp
lemma no_overlap_clippers_lakers: "no_overlap ''la clippers'' ''los angeles lakers''" by code_simp


lemma of_char_lower_char:
  "(of_char (lower_char c) :: nat) =
     (if (65 \<le> (of_char c :: nat) \<and> (of_char c :: nat) \<le> 90) \<or>
         (192 \<le> (of_char c :: nat) \<and> (of_char c :: nat) \<le> 214) \<or>
         (216 \<le> (of_char c :: nat) \<and> (of_char c :: nat) \<le> 222)
      then of_char c + 32 else of_char c)"
proof -
  have "(n + 32) mod 256 = n + 32" if "n \<le> 222" for n :: nat
    using that by simp
  then show ?thesis
    unfolding lower_char_def Let_def by (auto simp: of_char_of)
qed

lemma is_space_lower_char [simp]: "is_space (lower_char c) = is_space c"
  unfolding is_space_def of_char_lower_char by auto

lemma lower_char_fixed:
  "\<not> ((65 \<le> (of_char c :: nat) \<and> (of_char c :: nat) \<le> 90) \<or>
      (192 \<le> (of_char c :: nat) \<and> (of_char c :: nat) \<le> 214) \<or>
      (216 \<le> (of_char c :: nat) \<and> (of_char c :: nat) \<le> 222)) \<Longrightarrow> lower_char c = c"
  unfolding lower_char_def Let_def by (simp only: if_False)

lemma lower_char_idem [simp]: "lower_char (lower_char c) = lower_char c"
  by (rule lower_char_fixed) (simp add: of_char_lower_char)

lemma last_dropWhile: "dropWhile P xs \<noteq> [] \<Longrightarrow> last (dropWhile P xs) = last xs"
  by (induction xs) (auto split: if_splits)

lemma spaced_append: "spaced a \<Longrightarrow> spaced b \<Longrightarrow> spaced (a @ b)"
  by (induction a) (auto split: if_splits)

lemma spaced_drop: "spaced s \<Longrightarrow> spaced (drop n s)"
proof (induction s arbitrary: n)
  case Nil
  then show ?case by simp
next
  case (Cons c cs)
  then show ?case by (cases n) (auto split: if_splits)
qed

lemma spaced_last: "spaced s \<Longrightarrow> last_ok s"
  unfolding last_ok_def by (induction s) (auto split: if_splits)

lemma replace_scan_head:
  "head_ok new \<Longrightarrow> new \<noteq> [] \<Longrightarrow> s \<noteq> [] \<Longrightarrow> \<not> is_space (hd s) \<Longrightarrow>
   replace_scan old new s \<noteq> [] \<and> \<not> is_space (hd (replace_scan old new s))"
  by (cases s) (auto simp: head_ok_def)

lemma replace_scan_spaced:
  "spaced new \<Longrightarrow> head_ok new \<Longrightarrow> new \<noteq> [] \<Longrightarrow> spaced s \<Longrightarrow> spaced (replace_scan old new s)"
proof (induction old new s rule: replace_scan.induct)
  case (1 old new)
  then show ?case by simp
next
  case (2 old new c cs)
  show ?case
  proof (cases "old \<noteq> [] \<and> prefix old (c # cs)")
    case True
    have "spaced (drop (length old) (c # cs))"
      using "2.prems"(4) by (rule spaced_drop)
    from "2.IH"(1) [OF True "2.prems"(1,2,3) this] "2.prems"(1) True
    show ?thesis by (simp add: spaced_append)
  next
    case False
    have eq: "replace_scan old new (c # cs) = c # replace_scan old new cs"
      by (simp only: replace_scan.simps False if_False)
    from "2.prems"(4) have sp: "spaced cs" by simp
    from "2.IH"(2) [OF False "2.prems"(1,2,3) sp] have IH: "spaced (replace_scan old new cs)" .
    show ?thesis
    proof (cases "is_space c")
      case True
      with "2.prems"(4) have "c = CHR '' ''" "cs \<noteq> []" "\<not> is_space (hd cs)" by auto
      with replace_scan_head [OF "2.prems"(2,3), of cs old] IH True show ?thesis
        unfolding eq by simp
    next
      case False
      with IH show ?thesis unfolding eq by simp
    qed
  qed
qed

lemma replace_scan_set: "set (replace_scan old new s) \<subseteq> set s \<union> set new"
proof (induction old new s rule: replace_scan.induct)
  case (1 old new)
  then show ?case by simp
next
  case (2 old new c cs)
  show ?case
  proof (cases "old \<noteq> [] \<and> prefix old (c # cs)")
    case True
    have "set (drop (length old) (c # cs)) \<subseteq> set (c # cs)" by (rule set_drop_subset)
    with "2.IH"(1) [OF True] True show ?thesis by auto
  next
    case False
    have eq: "replace_scan old new (c # cs) = c # replace_scan old new cs"
      by (simp only: replace_scan.simps False if_False)
    from "2.IH"(2) [OF False] show ?thesis unfolding eq by auto
  qed
qed

lemma re_sub_spaces_head:
  "s \<noteq> [] \<Longrightarrow> \<not> is_space (hd s) \<Longrightarrow> re_sub_spaces s \<noteq> [] \<and> hd (re_sub_spaces s) = hd s"
  by (cases s) auto

lemma re_sub_spaces_spaced: "last_ok s \<Longrightarrow> spaced (re_sub_spaces s)"
proof (induction s rule: re_sub_spaces.induct)
  case 1
  then show ?case by simp
next
  case (2 c cs)
  show ?case
  proof (cases "is_space c")
    case True
    let ?d = "dropWhile is_space cs"
    have ne: "?d \<noteq> []"
    proof
      assume "?d = []"
      then have "\<forall>x\<in>set cs. is_space x" by (simp add: dropWhile_eq_Nil_conv)
      with True have "is_space (last (c # cs))" by (cases "cs = []") auto
      with "2.prems" show False by (simp add: last_ok_def)
    qed
    then have h: "\<not> is_space (hd ?d)" by (rule hd_dropWhile)
    from ne have "cs \<noteq> []" by auto
    then have "last (c # cs) = last cs" by simp
    with last_dropWhile [OF ne] have "last ?d = last (c # cs)" by simp
    with "2.prems" ne have "last_ok ?d" by (simp add: last_ok_def)
    from "2.IH"(1) [OF True this] re_sub_spaces_head [OF ne h] True h show ?thesis by simp
  next
    case False
    from "2.prems" False have "last_ok cs" by (auto simp: last_ok_def split: if_splits)
    from "2.IH"(2) [OF False this] False show ?thesis by simp
  qed
qed

lemma re_sub_spaces_set: "set (re_sub_spaces s) \<subseteq> insert (CHR '' '') (set s)"
proof (induction s rule: re_sub_spaces.induct)
  case 1
  then show ?case by simp
next
  case (2 c cs)
  have "set (dropWhile is_space cs) \<subseteq> set cs" by (rule set_dropWhileD [THEN subsetI])
  with 2 show ?case by (cases "is_space c") auto
qed

lemma re_sub_spaces_id: "spaced s \<Longrightarrow> re_sub_spaces s = s"
proof (induction s rule: re_sub_spaces.induct)
  case 1
  then show ?case by simp
next
  case (2 c cs)
  show ?case
  proof (cases "is_space c")
    case True
    with "2.prems" have c: "c = CHR '' ''" and ne: "cs \<noteq> []" and h: "\<not> is_space (hd cs)"
      and sp: "spaced cs" by auto
    from ne h have d: "dropWhile is_space cs = cs" by (cases cs) auto
    from "2.IH"(1) [OF True] sp d True c show ?thesis by simp
  next
    case False
    with "2.prems" "2.IH"(2) [OF False] show ?thesis by simp
  qed
qed

lemma py_strip_id: "head_ok s \<Longrightarrow> last_ok s \<Longrightarrow> py_strip s = s"
proof (cases "s = []")
  case True
  then show ?thesis by (simp add: py_strip_def)
next
  case False
  assume "head_ok s" "last_ok s"
  with False have h: "\<not> is_space (hd s)" and l: "\<not> is_space (last s)"
    by (auto simp: head_ok_def last_ok_def)
  from False h have a: "dropWhile is_space s = s" by (cases s) auto
  from False l have "\<not> is_space (hd (rev s))" by (simp add: hd_rev)
  with False have b: "dropWhile is_space (rev s) = rev s" by (cases "rev s") auto
  show ?thesis by (simp add: py_strip_def a b)
qed

lemma py_strip_ok: "head_ok (py_strip s) \<and> last_ok (py_strip s)"
proof (cases "py_strip s = []")
  case True
  then show ?thesis by (simp add: head_ok_def last_ok_def)
next
  case False
  let ?y = "dropWhile is_space s"
  let ?x = "dropWhile is_space (rev ?y)"
  from False have x: "?x \<noteq> []" by (simp add: py_strip_def)
  have y: "?y \<noteq> []"
  proof
    assume "?y = []"
    then have "?x = []" by (simp only: rev.simps dropWhile.simps)
    with x show False by simp
  qed
  from x have "\<not> is_space (hd ?x)" by (rule hd_dropWhile)
  with x have l: "\<not> is_space (last (rev ?x))" by (simp add: last_rev)
  from last_dropWhile [OF x] y have "last ?x = hd ?y" by (simp add: last_rev)
  moreover from y have "\<not> is_space (hd ?y)" by (rule hd_dropWhile)
  ultimately have "\<not> is_space (hd (rev ?x))" using x by (simp add: hd_rev)
  with l show ?thesis by (simp add: py_strip_def head_ok_def last_ok_def)
qed


definition lowered :: "string \<Rightarrow> bool" where
  "lowered s = list_all (\<lambda>c. lower_char c = c) s"

definition normal_form :: "string \<Rightarrow> bool" where
  "normal_form t =
     (head_ok t \<and> spaced t \<and> lowered t \<and>
      \<not> sublist ''la clippers'' t \<and> \<not> sublist ''la lakers'' t)"

lemma replace_scan_single:
  "replace_scan [a] [b] s = map (\<lambda>c. if c = a then b else c) s"
  by (induction s) auto

lemma head_ok_map: "(\<And>c. is_space (f c) = is_space c) \<Longrightarrow> head_ok (map f s) = head_ok s"
  by (cases s) (auto simp: head_ok_def)

lemma last_ok_map: "(\<And>c. is_space (f c) = is_space c) \<Longrightarrow> last_ok (map f s) = last_ok s"
  by (cases "s = []") (auto simp: last_ok_def last_map)

lemma is_space_nbsp_map: "is_space (if c = CHR 0xA0 then CHR '' '' else c) = is_space c"
  by (simp add: is_space_def)

lemma lowered_space: "lower_char (CHR '' '') = CHR '' ''"
  by (simp add: lower_char_def)

lemma replace_scan_head_ok:
  "head_ok new \<Longrightarrow> new \<noteq> [] \<Longrightarrow> head_ok s \<Longrightarrow> head_ok (replace_scan old new s)"
proof (cases "s = []")
  case True
  then show ?thesis by (simp add: head_ok_def)
next
  case False
  assume "head_ok new" "new \<noteq> []" "head_ok s"
  with False replace_scan_head [of new s old] show ?thesis by (simp add: head_ok_def)
qed

lemma replace_scan_lowered:
  "lowered new \<Longrightarrow> lowered s \<Longrightarrow> lowered (replace_scan old new s)"
  using replace_scan_set [of old new s] unfolding lowered_def list_all_iff by blast

lemma spaced_space: "spaced s \<Longrightarrow> c \<in> set s \<Longrightarrow> is_space c \<Longrightarrow> c = CHR '' ''"
  by (induction s) (auto split: if_splits)

lemma re_sub_spaces_head_ok: "head_ok s \<Longrightarrow> head_ok (re_sub_spaces s)"
  by (cases s) (auto simp: head_ok_def)

lemma pre_normal:
  "head_ok (re_sub_spaces (py_replace [CHR 0xA0] '' '' (py_lower (py_strip s)))) \<and>
   spaced (re_sub_spaces (py_replace [CHR 0xA0] '' '' (py_lower (py_strip s)))) \<and>
   lowered (re_sub_spaces (py_replace [CHR 0xA0] '' '' (py_lower (py_strip s))))"
proof -
  let ?f = "\<lambda>c. if c = CHR 0xA0 then CHR '' '' else c"
  let ?z1 = "py_lower (py_strip s)"
  let ?z2 = "py_replace [CHR 0xA0] '' '' ?z1"
  have z2: "?z2 = map ?f ?z1" by (simp add: py_replace_def replace_scan_single)
  have h1: "head_ok ?z1" and l1: "last_ok ?z1"
    using py_strip_ok [of s] by (simp_all add: py_lower_def head_ok_map last_ok_map)
  have h2: "head_ok ?z2" and l2: "last_ok ?z2"
    using h1 l1 unfolding z2 by (simp_all only: head_ok_map [of ?f, OF is_space_nbsp_map] last_ok_map [of ?f, OF is_space_nbsp_map])
  have low1: "lowered ?z1" by (simp add: lowered_def py_lower_def list_all_iff)
  have low2: "lowered ?z2"
    using low1 unfolding z2 lowered_def list_all_iff by (auto simp: lowered_space)
  have "head_ok (re_sub_spaces ?z2)"
    using h2 by (rule re_sub_spaces_head_ok)
  moreover have "spaced (re_sub_spaces ?z2)" using l2 by (rule re_sub_spaces_spaced)
  moreover have "lowered (re_sub_spaces ?z2)"
    using low2 re_sub_spaces_set [of ?z2] unfolding lowered_def list_all_iff
    by (auto simp: lowered_space)
  ultimately show ?thesis by simp
qed

lemma aliases_ok:
  "spaced ''los angeles clippers''" "head_ok ''los angeles clippers''" "lowered ''los angeles clippers''"
  "spaced ''los angeles lakers''" "head_ok ''los angeles lakers''" "lowered ''los angeles lakers''"
  by (simp_all add: head_ok_def lowered_def is_space_def lower_char_def)

lemma normalize_normal_form: "normal_form (normalize_team_name s)"
proof -
  let ?z3 = "re_sub_spaces (py_replace [CHR 0xA0] '' '' (py_lower (py_strip s)))"
  let ?z4 = "replace_scan ''la clippers'' ''los angeles clippers'' ?z3"
  let ?z5 = "replace_scan ''la lakers'' ''los angeles lakers'' ?z4"
  have n: "normalize_team_name s = ?z5"
    by (simp add: normalize_team_name_def py_replace_def)
  from pre_normal [of s] have h3: "head_ok ?z3" and s3: "spaced ?z3" and l3: "lowered ?z3"
    by simp_all
  have h4: "head_ok ?z4" using aliases_ok(2) _ h3 by (rule replace_scan_head_ok) simp
  have s4: "spaced ?z4" using aliases_ok(1,2) _ s3 by (rule replace_scan_spaced) simp
  have l4: "lowered ?z4" using aliases_ok(3) l3 by (rule replace_scan_lowered)
  have c4: "\<not> sublist ''la clippers'' ?z4"
    using no_overlap_clippers by (rule replace_scan_removes_all) simp
  have h5: "head_ok ?z5" using aliases_ok(5) _ h4 by (rule replace_scan_head_ok) simp
  have s5: "spaced ?z5" using aliases_ok(4,5) _ s4 by (rule replace_scan_spaced) simp
  have l5: "lowered ?z5" using aliases_ok(6) l4 by (rule replace_scan_lowered)
  have c5: "\<not> sublist ''la clippers'' ?z5"
    using no_overlap_clippers_lakers c4 by (rule replace_scan_creates_none)
  have k5: "\<not> sublist ''la lakers'' ?z5"
    using no_overlap_lakers by (rule replace_scan_removes_all) simp
  from h5 s5 l5 c5 k5 show ?thesis unfolding n normal_form_def by simp
qed

lemma normal_form_fixed: "normal_form t \<Longrightarrow> normalize_team_name t = t"
proof -
  assume nf: "normal_form t"
  then have h: "head_ok t" and s: "spaced t" and l: "lowered t"
    and c: "\<not> sublist ''la clippers'' t" and k: "\<not> sublist ''la lakers'' t"
    by (simp_all add: normal_form_def)
  have a: "py_strip t = t" using h spaced_last [OF s] by (rule py_strip_id)
  have b: "py_lower t = t"
    using l unfolding py_lower_def lowered_def list_all_iff by (simp add: map_idI)
  have "CHR 0xA0 \<notin> set t"
  proof
    assume "CHR 0xA0 \<in> set t"
    from spaced_space [OF s this] show False by (simp add: is_space_def)
  qed
  then have "\<not> sublist [CHR 0xA0] t" by (metis in_set_conv_decomp sublist_def append_Cons append_Nil)
  then have d: "replace_scan [CHR 0xA0] '' '' t = t"
    by (rule replace_scan_absent)
  have e: "re_sub_spaces t = t" using s by (rule re_sub_spaces_id)
  show ?thesis
    by (simp add: normalize_team_name_def a b d e py_replace_def
        replace_scan_absent [OF c] replace_scan_absent [OF k])
qed

lemma normalize_idem: "normalize_team_name (normalize_team_name x) = normalize_team_name x"
  using normalize_normal_form by (rule normal_form_fixed)


lemma py_strip_map:
  assumes "\<And>c. is_space (f c) = is_space c"
  shows "py_strip (map f s) = map f (py_strip s)"
proof -
  have c: "is_space \<circ> f = is_space" using assms by (simp add: fun_eq_iff)
  have d: "dropWhile is_space (map f t) = map f (dropWhile is_space t)" for t
    by (simp add: dropWhile_map c)
  show ?thesis
    unfolding py_strip_def by (simp only: d rev_map)
qed

lemma normalize_lower: "normalize_team_name (py_lower x) = normalize_team_name x"
proof -
  have "py_lower (py_strip (py_lower x)) = py_lower (py_strip x)"
    unfolding py_lower_def by (simp add: py_strip_map comp_def)
  then show ?thesis unfolding normalize_team_name_def by simp
qed

lemma py_strip_padding:
  assumes a: "list_all is_space a" and b: "list_all is_space b"
  shows "py_strip (a @ x @ b) = py_strip x"
proof -
  from a have 1: "dropWhile is_space (a @ x @ b) = dropWhile is_space (x @ b)"
    by (simp add: list_all_iff dropWhile_append2)
  from b have rb: "\<And>c. c \<in> set (rev b) \<Longrightarrow> is_space c" by (simp add: list_all_iff)
  have 2: "dropWhile is_space (rev (dropWhile is_space (x @ b))) =
           dropWhile is_space (rev (dropWhile is_space x))"
  proof (cases "\<forall>c\<in>set x. is_space c")
    case True
    then have e1: "dropWhile is_space x = []" by simp
    from True b have "\<forall>c\<in>set (x @ b). is_space c" by (auto simp: list_all_iff)
    then have e2: "dropWhile is_space (x @ b) = []" by (simp only: dropWhile_eq_Nil_conv)
    show ?thesis unfolding e1 e2 ..
  next
    case False
    then obtain c where "c \<in> set x" "\<not> is_space c" by blast
    then have e3: "dropWhile is_space (x @ b) = dropWhile is_space x @ b"
      by (rule dropWhile_append1)
    have "dropWhile is_space (rev b @ rev (dropWhile is_space x)) =
          dropWhile is_space (rev (dropWhile is_space x))"
      using rb by (rule dropWhile_append2)
    then show ?thesis unfolding e3 by simp
  qed
  show ?thesis unfolding py_strip_def 1 2 ..
qed

lemma normalize_padding:
  "list_all is_space a \<Longrightarrow> list_all is_space b \<Longrightarrow>
   normalize_team_name (a @ x @ b) = normalize_team_name x"
  unfolding normalize_team_name_def by (simp add: py_strip_padding)

text \<open>
  White space inside a name: a non-empty run of white space characters (the no-break
  space is one of them) can be replaced by any other such run without changing the
  normal form. \<open>re_sub_spaces\<close> collapses the run, \<open>py_strip\<close> removes it when it ends
  up at either end.
\<close>

lemma re_sub_spaces_run:
  assumes "w \<noteq> []" and "list_all is_space w"
  shows "re_sub_spaces (w @ b) = CHR '' '' # re_sub_spaces (dropWhile is_space b)"
proof -
  from assms obtain c w1 where w: "w = c # w1" by (cases w) auto
  with assms have c: "is_space c" and w1: "\<And>d. d \<in> set w1 \<Longrightarrow> is_space d"
    by (auto simp: list_all_iff)
  have "dropWhile is_space (w1 @ b) = dropWhile is_space b"
    using w1 by (rule dropWhile_append2)
  with c show ?thesis unfolding w by simp
qed

lemma re_sub_spaces_inner:
  assumes w: "w \<noteq> []" "list_all is_space w" and v: "v \<noteq> []" "list_all is_space v"
  shows "re_sub_spaces (a @ w @ b) = re_sub_spaces (a @ v @ b)"
proof (induction a rule: length_induct)
  case (1 a)
  show ?case
  proof (cases a)
    case Nil
    then show ?thesis by (simp add: re_sub_spaces_run [OF w] re_sub_spaces_run [OF v])
  next
    case (Cons c a')
    show ?thesis
    proof (cases "is_space c")
      case False
      from 1 Cons have "re_sub_spaces (a' @ w @ b) = re_sub_spaces (a' @ v @ b)" by simp
      with False show ?thesis unfolding Cons by simp
    next
      case True
      have "re_sub_spaces (dropWhile is_space (a' @ w @ b)) =
            re_sub_spaces (dropWhile is_space (a' @ v @ b))"
      proof (cases "\<forall>d\<in>set a'. is_space d")
        case True
        then have "\<And>d. d \<in> set (a' @ w) \<Longrightarrow> is_space d" "\<And>d. d \<in> set (a' @ v) \<Longrightarrow> is_space d"
          using w v by (auto simp: list_all_iff)
        then have "dropWhile is_space ((a' @ w) @ b) = dropWhile is_space b"
              and "dropWhile is_space ((a' @ v) @ b) = dropWhile is_space b"
          by (simp_all only: dropWhile_append2)
        then show ?thesis by simp
      next
        case False
        then obtain d where d: "d \<in> set a'" "\<not> is_space d" by blast
        have e: "dropWhile is_space (a' @ z) = dropWhile is_space a' @ z" for z
          using d by (rule dropWhile_append1)
        have "length (dropWhile is_space a') < length a"
          unfolding Cons by (simp add: length_dropWhile_le less_Suc_eq_le)
        with 1 have "re_sub_spaces (dropWhile is_space a' @ w @ b) =
                     re_sub_spaces (dropWhile is_space a' @ v @ b)" by blast
        then show ?thesis unfolding e .
      qed
      with True show ?thesis unfolding Cons by simp
    qed
  qed
qed

lemma py_strip_inner:
  assumes x: "\<not> list_all is_space x" and y: "\<not> list_all is_space y"
  shows "py_strip (x @ m @ y) =
         dropWhile is_space x @ m @ rev (dropWhile is_space (rev y))"
proof -
  from x obtain c where c: "c \<in> set x" "\<not> is_space c" by (auto simp: list_all_iff)
  from y obtain d where d: "d \<in> set (rev y)" "\<not> is_space d" by (auto simp: list_all_iff)
  have 1: "dropWhile is_space (x @ m @ y) = dropWhile is_space x @ m @ y"
    using c by (rule dropWhile_append1)
  have 2: "dropWhile is_space (rev y @ rev m @ rev (dropWhile is_space x)) =
           dropWhile is_space (rev y) @ rev m @ rev (dropWhile is_space x)"
    using d by (rule dropWhile_append1)
  show ?thesis unfolding py_strip_def 1 by (simp add: 2)
qed

lemma strip_collapse_inner:
  assumes w: "w \<noteq> []" "list_all is_space w" and v: "v \<noteq> []" "list_all is_space v"
  shows "re_sub_spaces (py_strip (x @ w @ y)) = re_sub_spaces (py_strip (x @ v @ y))"
proof (cases "list_all is_space x")
  case True
  with w v have "list_all is_space (x @ w)" "list_all is_space (x @ v)" by simp_all
  then have "py_strip ((x @ w) @ y @ []) = py_strip y" "py_strip ((x @ v) @ y @ []) = py_strip y"
    using py_strip_padding [of "x @ w" "[]" y] py_strip_padding [of "x @ v" "[]" y] by simp_all
  then show ?thesis by simp
next
  case x: False
  show ?thesis
  proof (cases "list_all is_space y")
    case True
    with w v have "list_all is_space (w @ y)" "list_all is_space (v @ y)" by simp_all
    then have "py_strip ([] @ x @ (w @ y)) = py_strip x" "py_strip ([] @ x @ (v @ y)) = py_strip x"
      using py_strip_padding [of "[]" "w @ y" x] py_strip_padding [of "[]" "v @ y" x] by simp_all
    then show ?thesis by simp
  next
    case False
    show ?thesis
      unfolding py_strip_inner [OF x False] by (rule re_sub_spaces_inner [OF w v])
  qed
qed

lemma normalize_inner:
  assumes w: "w \<noteq> []" "list_all is_space w" and v: "v \<noteq> []" "list_all is_space v"
  shows "normalize_team_name (x @ w @ y) = normalize_team_name (x @ v @ y)"
proof -
  define g where "g = (\<lambda>c. if c = CHR 0xA0 then CHR '' '' else c) \<circ> lower_char"
  have g: "is_space (g c) = is_space c" for c
    unfolding g_def comp_def by (simp only: is_space_nbsp_map is_space_lower_char)
  have pre: "py_replace [CHR 0xA0] '' '' (py_lower (py_strip s)) = py_strip (map g s)" for s
  proof -
    have "py_replace [CHR 0xA0] '' '' (py_lower (py_strip s)) = map g (py_strip s)"
      unfolding py_replace_def py_lower_def g_def
      by (simp add: replace_scan_single)
    then show ?thesis by (simp add: py_strip_map [OF g])
  qed
  have gw: "map g w \<noteq> []" "list_all is_space (map g w)"
    and gv: "map g v \<noteq> []" "list_all is_space (map g v)"
    using w v g by (simp_all add: list_all_iff)
  have "re_sub_spaces (py_strip (map g x @ map g w @ map g y)) =
        re_sub_spaces (py_strip (map g x @ map g v @ map g y))"
    by (rule strip_collapse_inner [OF gw gv])
  then have "re_sub_spaces (py_strip (map g (x @ w @ y))) =
             re_sub_spaces (py_strip (map g (x @ v @ y)))" by simp
  then show ?thesis
    unfolding normalize_team_name_def Let_def pre by simp
qed

text \<open>
  Claim C8. Normalising a normalised name changes nothing; the names
  \<open>"  LA Clippers "\<close> and \<open>"los angeles clippers"\<close> have the same normal form, which is
  \<open>"los angeles clippers"\<close>. Case and white space do not matter in general: a name and
  its lower-case form have the same normal form; so have a name and the name padded with
  white space; and so have two names that differ only in the length and the characters
  of a run of white space inside, the no-break space included: \<open>"Boston   Celtics"\<close>,
  \<open>"Boston Celtics"\<close> and \<open>"Boston"\<close>, a no-break space, a tab, \<open>"Celtics"\<close> all give
  \<open>"boston celtics"\<close>.
\<close>

theorem normalize_team_name_idempotent:
  "normalize_team_name (normalize_team_name x) = normalize_team_name x \<and>
   normalize_team_name ''  LA Clippers '' = normalize_team_name ''los angeles clippers'' \<and>
   normalize_team_name (py_lower x) = normalize_team_name x \<and>
   (list_all is_space a \<and> list_all is_space b \<longrightarrow>
      normalize_team_name (a @ x @ b) = normalize_team_name x) \<and>
   (w \<noteq> [] \<and> list_all is_space w \<and> v \<noteq> [] \<and> list_all is_space v \<longrightarrow>
      normalize_team_name (x @ w @ y) = normalize_team_name (x @ v @ y)) \<and>
   normalize_team_name ''  LA Clippers '' = ''los angeles clippers'' \<and>
   normalize_team_name ''Boston   Celtics'' = ''boston celtics'' \<and>
   normalize_team_name (''Boston'' @ [CHR 0xA0, CHR 0x09] @ ''Celtics'') = ''boston celtics'' \<and>
   normalize_team_name ''Boston Celtics'' = ''boston celtics''"
proof -
  have 1: "normalize_team_name ''  LA Clippers '' = normalize_team_name ''los angeles clippers''"
    by code_simp
  have 2: "normalize_team_name ''  LA Clippers '' = ''los angeles clippers''" by code_simp
  have 3: "normalize_team_name ''Boston   Celtics'' = ''boston celtics''" by code_simp
  have 4: "normalize_team_name (''Boston'' @ [CHR 0xA0, CHR 0x09] @ ''Celtics'') = ''boston celtics''"
    by code_simp
  have 5: "normalize_team_name ''Boston Celtics'' = ''boston celtics''" by code_simp
  have 6: "w \<noteq> [] \<and> list_all is_space w \<and> v \<noteq> [] \<and> list_all is_space v \<longrightarrow>
      normalize_team_name (x @ w @ y) = normalize_team_name (x @ v @ y)"
    using normalize_inner by blast
  have 7: "list_all is_space a \<and> list_all is_space b \<longrightarrow>
      normalize_team_name (a @ x @ b) = normalize_team_name x"
    using normalize_padding by blast
  show ?thesis
    by (intro conjI normalize_idem normalize_lower 1 2 3 4 5 6 7)
qed

theorem normalize_team_name_idempotent_witness:
  "list_all is_space ''  '' \<and> list_all is_space '' '' \<and>
   normalize_team_name (''  '' @ ''LA Clippers'' @ '' '') = normalize_team_name ''LA Clippers'' \<and>
   normalize_team_name (normalize_team_name ''LA Clippers'') = ''los angeles clippers'' \<and>
   [CHR 0xA0, CHR 0x09, CHR '' ''] \<noteq> [] \<and> list_all is_space [CHR 0xA0, CHR 0x09, CHR '' ''] \<and>
   normalize_team_name (''LA'' @ [CHR 0xA0, CHR 0x09, CHR '' ''] @ ''Clippers'') =
     normalize_team_name (''LA'' @ '' '' @ ''Clippers'') \<and>
   normalize_team_name (''LA'' @ '' '' @ ''Clippers'') = ''los angeles clippers''"
proof -
  have s: "list_all is_space ''  ''" "list_all is_space '' ''"
    "list_all is_space [CHR 0xA0, CHR 0x09, CHR '' '']"
    by (simp_all add: is_space_def)
  have v: "normalize_team_name ''LA Clippers'' = ''los angeles clippers''"
    by code_simp
  note t = normalize_team_name_idempotent [of "''LA Clippers''" "''  ''" "'' ''"]
  note u = normalize_team_name_idempotent
             [of "''LA''" _ _ "[CHR 0xA0, CHR 0x09, CHR '' '']" "'' ''" "''Clippers''"]
  from t have t1: "normalize_team_name (normalize_team_name ''LA Clippers'') =
                   normalize_team_name ''LA Clippers''" by (rule conjunct1)
  have t4: "normalize_team_name (''  '' @ ''LA Clippers'' @ '' '') =
            normalize_team_name ''LA Clippers''"
    by (rule t [THEN conjunct2, THEN conjunct2, THEN conjunct2, THEN conjunct1, THEN mp])
       (simp only: s simp_thms)
  have u5: "normalize_team_name (''LA'' @ [CHR 0xA0, CHR 0x09, CHR '' ''] @ ''Clippers'') =
     normalize_team_name (''LA'' @ '' '' @ ''Clippers'')"
    by (rule u [THEN conjunct2, THEN conjunct2, THEN conjunct2, THEN conjunct2,
                THEN conjunct1, THEN mp])
       (simp add: is_space_def)
  from s t1 t4 u5 v show ?thesis by simp
qed

subsection \<open>The resilient fetcher\<close>

text \<open>\<open>failure out\<close> is the error a round leaves in \<open>last_err\<close>, if the round fails.\<close>

definition failure :: "http_outcome \<Rightarrow> exn option" where
  "failure out = (case attempt out of Inl e \<Rightarrow> Some e | Inr j \<Rightarrow> None)"

lemma nba_fetch_loop_tries:
  "tries (nba_fetch_loop B u net is last_err n sl) \<le> n + length is"
proof (induction "is" arbitrary: last_err n sl)
  case Nil
  then show ?case by simp
next
  case (Cons i "is")
  show ?case
  proof (cases "attempt (net i)")
    case (Inl e)
    show ?thesis
    proof (cases "jitter_sleep B u i")
      case (Inl x)
      with \<open>attempt (net i) = Inl e\<close> show ?thesis by simp
    next
      case (Inr d)
      with \<open>attempt (net i) = Inl e\<close> Cons [of "Some e" "Suc n" "sl @ [d]"] show ?thesis by simp
    qed
  next
    case (Inr j)
    then show ?thesis by simp
  qed
qed

lemma nba_fetch_loop_exhausted:
  "(\<And>i. i \<in> set is \<Longrightarrow> failure (net i) \<noteq> None \<and> jitter_sleep B u i = Inr (d i)) \<Longrightarrow>
   nba_fetch_loop B u net is last_err n sl =
     \<lparr>outcome = Exhausted (if is = [] then last_err else failure (net (last is))),
      tries = n + length is, sleeps = sl @ map d is\<rparr>"
proof (induction "is" arbitrary: last_err n sl)
  case Nil
  then show ?case by simp
next
  case (Cons i "is")
  from Cons.prems [of i] obtain e where e: "attempt (net i) = Inl e"
    by (auto simp: failure_def split: sum.splits)
  then have f: "failure (net i) = Some e" by (simp add: failure_def)
  from Cons.prems [of i] have s: "jitter_sleep B u i = Inr (d i)" by simp
  have "nba_fetch_loop B u net (i # is) last_err n sl =
        nba_fetch_loop B u net is (Some e) (Suc n) (sl @ [d i])"
    using e s by simp
  also have "\<dots> = \<lparr>outcome = Exhausted (if is = [] then Some e else failure (net (last is))),
      tries = Suc n + length is, sleeps = (sl @ [d i]) @ map d is\<rparr>"
    by (rule Cons.IH) (simp add: Cons.prems)
  finally show ?case using f by simp
qed

lemma nba_fetch_loop_success:
  "(\<And>i. i \<in> set pre \<Longrightarrow> failure (net i) \<noteq> None \<and> jitter_sleep B u i = Inr (d i)) \<Longrightarrow>
   attempt (net k) = Inr j \<Longrightarrow>
   nba_fetch_loop B u net (pre @ k # post) last_err n sl =
     \<lparr>outcome = Returned j, tries = Suc (n + length pre), sleeps = sl @ map d pre\<rparr>"
proof (induction pre arbitrary: last_err n sl)
  case Nil
  then show ?case by simp
next
  case (Cons i pre)
  from Cons.prems(1) [of i] obtain e where e: "attempt (net i) = Inl e"
    by (auto simp: failure_def split: sum.splits)
  from Cons.prems(1) [of i] have s: "jitter_sleep B u i = Inr (d i)" by simp
  have "nba_fetch_loop B u net ((i # pre) @ k # post) last_err n sl =
        nba_fetch_loop B u net (pre @ k # post) (Some e) (Suc n) (sl @ [d i])"
    using e s by simp
  also have "\<dots> = \<lparr>outcome = Returned j, tries = Suc (Suc n + length pre),
      sleeps = (sl @ [d i]) @ map d pre\<rparr>"
    by (rule Cons.IH) (simp_all add: Cons.prems)
  finally show ?case by simp
qed

lemma nba_fetch_loop_propagated:
  "(\<And>i. i \<in> set pre \<Longrightarrow> failure (net i) \<noteq> None \<and> jitter_sleep B u i = Inr (d i)) \<Longrightarrow>
   failure (net k) \<noteq> None \<Longrightarrow> jitter_sleep B u k = Inl x \<Longrightarrow>
   nba_fetch_loop B u net (pre @ k # post) last_err n sl =
     \<lparr>outcome = Propagated x, tries = Suc (n + length pre), sleeps = sl @ map d pre\<rparr>"
proof (induction pre arbitrary: last_err n sl)
  case Nil
  from Nil(2) obtain e where "attempt (net k) = Inl e"
    by (auto simp: failure_def split: sum.splits)
  with Nil(3) show ?case by simp
next
  case (Cons i pre)
  from Cons.prems(1) [of i] obtain e where e: "attempt (net i) = Inl e"
    by (auto simp: failure_def split: sum.splits)
  from Cons.prems(1) [of i] have s: "jitter_sleep B u i = Inr (d i)" by simp
  have "nba_fetch_loop B u net ((i # pre) @ k # post) last_err n sl =
        nba_fetch_loop B u net (pre @ k # post) (Some e) (Suc n) (sl @ [d i])"
    using e s by simp
  also have "\<dots> = \<lparr>outcome = Propagated x, tries = Suc (Suc n + length pre),
      sleeps = (sl @ [d i]) @ map d pre\<rparr>"
    by (rule Cons.IH) (simp_all add: Cons.prems)
  finally show ?case by simp
qed

lemma upt_split: "k < n \<Longrightarrow> [0..<n] = [0..<k] @ k # [Suc k..<n]"
  by (metis less_imp_le_nat upt_add_eq_append upt_conv_Cons le_add_diff_inverse zero_le)

lemma attempt_Inr_iff:
  "attempt out = Inr j \<longleftrightarrow> (\<exists>text. out = Response 200 text (Inr j))"
  by (cases out) (auto simp: attempt_def)

lemma jitter_sleep_Finite:
  "jitter_sleep (Finite b) u i =
     (if 1511 \<le> i
      then Inl (OverflowError (''(34, '' @ [CHR 0x27] @ ''Numerical result out of range'' @
                  [CHR 0x27] @ '')''))
      else if 2 ^ 63 < \<bar>b * (8 / 5) ^ i + u i\<bar> * 10 ^ 9
      then Inl (OverflowError ''timestamp out of range for platform time_t'')
      else if b * (8 / 5) ^ i + u i < 0
      then Inl (ValueError ''sleep length must be non-negative'')
      else Inr (b * (8 / 5) ^ i + u i))"
  by (simp add: jitter_sleep_def pow_1_6_def time_sleep_def)

text \<open>
  Claim C6, as amended. \<open>nba_fetch\<close> makes at most \<open>MAX_TRIES\<close> requests. A round fails
  when the request raises, when the status is not 200, or when the status is 200 and the
  body does not parse as JSON; after a failed round comes a sleep. As long as the sleeps
  return, \<open>nba_fetch\<close> returns the parsed body of the first round that does not fail,
  after one sleep for each failed round before it; and when all \<open>MAX_TRIES\<close> rounds fail
  it has slept after each and raises a \<open>RuntimeError\<close> whose text ends with the text of
  the last failure. When the sleep after a failed round raises, that exception leaves
  \<open>nba_fetch\<close> at once.

  With a finite \<open>SLEEP_BASE\<close> the sleep of round \<open>i\<close> lasts \<open>SLEEP_BASE * 1.6 ^ i\<close> plus the
  jitter, so the part without jitter grows by the factor \<open>1.6\<close> from one round to the
  next. It raises \<open>ValueError\<close> when that duration is negative, and \<open>OverflowError\<close> when
  the duration exceeds \<open>2 ^ 63\<close> nanoseconds or \<open>i\<close> exceeds 1510.
\<close>

theorem nba_fetch_retries:
  "requests (nba_fetch M B u net) \<le> nat M \<and>
   (k < nat M \<and> attempt (net k) = Inr j \<and>
    (\<forall>i<k. failure (net i) \<noteq> None \<and> jitter_sleep B u i = Inr (d i)) \<longrightarrow>
      returned (nba_fetch M B u net) = Inr j \<and>
      requests (nba_fetch M B u net) = Suc k \<and>
      slept (nba_fetch M B u net) = map d [0..<k]) \<and>
   ((\<forall>i<nat M. failure (net i) \<noteq> None \<and> jitter_sleep B u i = Inr (d i)) \<longrightarrow>
      returned (nba_fetch M B u net) =
        Inl (RuntimeError (''NBA fetch failed after '' @ str_int M @ '' tries: '' @
               str_last_err (if nat M = 0 then None else failure (net (nat M - 1))))) \<and>
      requests (nba_fetch M B u net) = nat M \<and>
      slept (nba_fetch M B u net) = map d [0..<nat M]) \<and>
   (k < nat M \<and> failure (net k) \<noteq> None \<and> jitter_sleep B u k = Inl x \<and>
    (\<forall>i<k. failure (net i) \<noteq> None \<and> jitter_sleep B u i = Inr (d i)) \<longrightarrow>
      returned (nba_fetch M B u net) = Inl x \<and>
      requests (nba_fetch M B u net) = Suc k \<and>
      slept (nba_fetch M B u net) = map d [0..<k]) \<and>
   (attempt out = Inr j \<longleftrightarrow> (\<exists>text. out = Response 200 text (Inr j))) \<and>
   jitter_sleep (Finite b) u i =
     (if 1511 \<le> i
      then Inl (OverflowError (''(34, '' @ [CHR 0x27] @ ''Numerical result out of range'' @
                  [CHR 0x27] @ '')''))
      else if 2 ^ 63 < \<bar>b * (8 / 5) ^ i + u i\<bar> * 10 ^ 9
      then Inl (OverflowError ''timestamp out of range for platform time_t'')
      else if b * (8 / 5) ^ i + u i < 0
      then Inl (ValueError ''sleep length must be non-negative'')
      else Inr (b * (8 / 5) ^ i + u i))"
proof -
  have a: "requests (nba_fetch M B u net) \<le> nat M"
    using nba_fetch_loop_tries [of B u net "[0..<nat M]" None 0 "[]"]
    by (simp add: nba_fetch_def Let_def)
  have b: "returned (nba_fetch M B u net) = Inr j \<and>
      requests (nba_fetch M B u net) = Suc k \<and>
      slept (nba_fetch M B u net) = map d [0..<k]"
    if k: "k < nat M" and j: "attempt (net k) = Inr j"
      and pre: "\<forall>i<k. failure (net i) \<noteq> None \<and> jitter_sleep B u i = Inr (d i)"
  proof -
    have "nba_fetch_loop B u net ([0..<k] @ k # [Suc k..<nat M]) None 0 [] =
      \<lparr>outcome = Returned j, tries = Suc (0 + length [0..<k]), sleeps = [] @ map d [0..<k]\<rparr>"
      using _ j by (rule nba_fetch_loop_success) (simp add: pre)
    with upt_split [OF k] show ?thesis by (simp add: nba_fetch_def Let_def)
  qed
  have c: "returned (nba_fetch M B u net) =
        Inl (RuntimeError (''NBA fetch failed after '' @ str_int M @ '' tries: '' @
               str_last_err (if nat M = 0 then None else failure (net (nat M - 1))))) \<and>
      requests (nba_fetch M B u net) = nat M \<and>
      slept (nba_fetch M B u net) = map d [0..<nat M]"
    if all: "\<forall>i<nat M. failure (net i) \<noteq> None \<and> jitter_sleep B u i = Inr (d i)"
  proof -
    have "nba_fetch_loop B u net [0..<nat M] None 0 [] =
      \<lparr>outcome = Exhausted (if [0..<nat M] = [] then None else failure (net (last [0..<nat M]))),
       tries = 0 + length [0..<nat M], sleeps = [] @ map d [0..<nat M]\<rparr>"
      by (rule nba_fetch_loop_exhausted) (simp add: all)
    moreover have "last [0..<nat M] = nat M - 1" if "nat M \<noteq> 0"
      using that by (cases "nat M") simp_all
    ultimately show ?thesis by (simp add: nba_fetch_def Let_def)
  qed
  have e: "returned (nba_fetch M B u net) = Inl x \<and>
      requests (nba_fetch M B u net) = Suc k \<and>
      slept (nba_fetch M B u net) = map d [0..<k]"
    if k: "k < nat M" and f: "failure (net k) \<noteq> None" and x: "jitter_sleep B u k = Inl x"
      and pre: "\<forall>i<k. failure (net i) \<noteq> None \<and> jitter_sleep B u i = Inr (d i)"
  proof -
    have "nba_fetch_loop B u net ([0..<k] @ k # [Suc k..<nat M]) None 0 [] =
      \<lparr>outcome = Propagated x, tries = Suc (0 + length [0..<k]), sleeps = [] @ map d [0..<k]\<rparr>"
      using _ f x by (rule nba_fetch_loop_propagated) (simp add: pre)
    with upt_split [OF k] show ?thesis by (simp add: nba_fetch_def Let_def)
  qed
  from a b c e attempt_Inr_iff jitter_sleep_Finite show ?thesis by blast
qed

theorem nba_fetch_retries_witness:
  "returned (nba_fetch 8 (Finite (5 / 4)) (\<lambda>i. 1 / 4)
      (\<lambda>i. if i < 2 then Response 503 ''busy'' (Inl (ValueError ''no JSON''))
           else Response 200 ''{}'' (Inr (JObj [])))) = Inr (JObj []) \<and>
   requests (nba_fetch 8 (Finite (5 / 4)) (\<lambda>i. 1 / 4)
      (\<lambda>i. if i < 2 then Response 503 ''busy'' (Inl (ValueError ''no JSON''))
           else Response 200 ''{}'' (Inr (JObj [])))) = 3 \<and>
   slept (nba_fetch 8 (Finite (5 / 4)) (\<lambda>i. 1 / 4)
      (\<lambda>i. if i < 2 then Response 503 ''busy'' (Inl (ValueError ''no JSON''))
           else Response 200 ''{}'' (Inr (JObj [])))) = [3 / 2, 9 / 4] \<and>
   returned (nba_fetch 2 (Finite (5 / 4)) (\<lambda>i. 1 / 4)
      (\<lambda>i. if i < 2 then Response 503 ''busy'' (Inl (ValueError ''no JSON''))
           else Response 200 ''{}'' (Inr (JObj [])))) =
     Inl (RuntimeError ''NBA fetch failed after 2 tries: NBA HTTP 503: busy'') \<and>
   requests (nba_fetch 2 (Finite (5 / 4)) (\<lambda>i. 1 / 4)
      (\<lambda>i. if i < 2 then Response 503 ''busy'' (Inl (ValueError ''no JSON''))
           else Response 200 ''{}'' (Inr (JObj [])))) = 2 \<and>
   returned (nba_fetch 8 (Finite (- 1)) (\<lambda>i. 1 / 4)
      (\<lambda>i. if i < 2 then Response 503 ''busy'' (Inl (ValueError ''no JSON''))
           else Response 200 ''{}'' (Inr (JObj [])))) =
     Inl (ValueError ''sleep length must be non-negative'') \<and>
   requests (nba_fetch 8 (Finite (- 1)) (\<lambda>i. 1 / 4)
      (\<lambda>i. if i < 2 then Response 503 ''busy'' (Inl (ValueError ''no JSON''))
           else Response 200 ''{}'' (Inr (JObj [])))) = 1"
proof -
  let ?net = "\<lambda>i::nat. if i < 2 then Response 503 ''busy'' (Inl (ValueError ''no JSON''))
           else Response 200 ''{}'' (Inr (JObj []))"
  let ?u = "\<lambda>i::nat. 1 / 4 :: rat"
  let ?d = "\<lambda>i::nat. 5 / 4 * (8 / 5) ^ i + 1 / 4 :: rat"
  have f: "failure (?net i) = Some (RuntimeError ''NBA HTTP 503: busy'')" if "i < 2" for i
  proof -
    have "str_int 503 = ''503''" by code_simp
    with that show ?thesis by (simp add: failure_def attempt_def)
  qed
  have s0: "jitter_sleep (Finite (5 / 4)) ?u 0 = Inr (?d 0)" by code_simp
  have s1: "jitter_sleep (Finite (5 / 4)) ?u 1 = Inr (?d 1)" by code_simp
  have s: "jitter_sleep (Finite (5 / 4)) ?u i = Inr (?d i)" if "i < 2" for i
  proof -
    from that have "i = 0 \<or> i = 1" by auto
    with s0 s1 show ?thesis by auto
  qed
  have h1: "(2::nat) < nat 8" by simp
  have h2: "attempt (?net 2) = Inr (JObj [])" by (simp add: attempt_def)
  have h3: "\<forall>i<2. failure (?net i) \<noteq> None \<and> jitter_sleep (Finite (5 / 4)) ?u i = Inr (?d i)"
    using f s by simp
  have h4: "\<forall>i<nat 2. failure (?net i) \<noteq> None \<and> jitter_sleep (Finite (5 / 4)) ?u i = Inr (?d i)"
    using f s by simp
  have h5: "(0::nat) < nat 8" by simp
  have h6: "failure (?net 0) \<noteq> None" using f [of 0] by simp
  have h7: "jitter_sleep (Finite (- 1)) ?u 0 = Inl (ValueError ''sleep length must be non-negative'')"
    by code_simp
  have h8: "\<forall>i<0. failure (?net i) \<noteq> None \<and> jitter_sleep (Finite (- 1)) ?u i = Inr (?d i)"
    by simp
  have m: "map ?d [0..<2] = [3 / 2, 9 / 4]"
    by code_simp
  note first = nba_fetch_retries [of 8 "Finite (5 / 4)" ?u ?net 2 "JObj []" ?d,
      THEN conjunct2, THEN conjunct1, THEN mp, OF conjI [OF h1 conjI [OF h2 h3]]]
  note second = nba_fetch_retries [of 2 "Finite (5 / 4)" ?u ?net _ _ ?d,
      THEN conjunct2, THEN conjunct2, THEN conjunct1, THEN mp, OF h4]
  note third = nba_fetch_retries [of 8 "Finite (- 1)" ?u ?net 0 _ ?d
        "ValueError ''sleep length must be non-negative''",
      THEN conjunct2, THEN conjunct2, THEN conjunct2, THEN conjunct1, THEN mp,
      OF conjI [OF h5 conjI [OF h6 conjI [OF h7 h8]]]]
  have t: "''NBA fetch failed after '' @ str_int 2 @ '' tries: '' @
           str_last_err (if nat 2 = 0 then None else failure (?net (nat 2 - 1))) =
           ''NBA fetch failed after 2 tries: NBA HTTP 503: busy''"
  proof -
    have "str_int 2 = ''2''" by code_simp
    moreover have "failure (?net (nat 2 - 1)) = Some (RuntimeError ''NBA HTTP 503: busy'')"
      by (rule f) simp
    ultimately show ?thesis by (simp add: str_last_err_def)
  qed
  from first have a: "returned (nba_fetch 8 (Finite (5 / 4)) ?u ?net) = Inr (JObj [])"
    and b: "requests (nba_fetch 8 (Finite (5 / 4)) ?u ?net) = 3"
    and c: "slept (nba_fetch 8 (Finite (5 / 4)) ?u ?net) = [3 / 2, 9 / 4]"
    unfolding m by simp_all
  from second have d: "returned (nba_fetch 2 (Finite (5 / 4)) ?u ?net) =
     Inl (RuntimeError ''NBA fetch failed after 2 tries: NBA HTTP 503: busy'')"
    and e: "requests (nba_fetch 2 (Finite (5 / 4)) ?u ?net) = 2"
    unfolding t by simp_all
  from third have g: "returned (nba_fetch 8 (Finite (- 1)) ?u ?net) =
     Inl (ValueError ''sleep length must be non-negative'')"
    and h: "requests (nba_fetch 8 (Finite (- 1)) ?u ?net) = 1"
    by simp_all
  from a b c d e g h show ?thesis by simp
qed

text \<open>
  The claim as stated fails: it is not true that the fetcher always stops at the first
  round that gives status 200 and returns the result of \<open>r.json()\<close> there. When that
  body is not JSON the exception is caught and the next round runs.
\<close>

theorem nba_fetch_first_200_counterexample:
  "\<not> (\<forall>M B u net k text body.
        k < nat M \<and> net k = Response 200 text body \<and>
        (\<forall>i<k. \<forall>t b. net i \<noteq> Response 200 t b) \<longrightarrow>
        returned (nba_fetch M B u net) = body \<and> requests (nba_fetch M B u net) = Suc k)"
proof
  let ?net = "\<lambda>i::nat. if i = 0 then Response 200 ''<html>'' (Inl (ValueError ''Expecting value''))
           else Response 200 ''{}'' (Inr (JObj []))"
  assume a: "\<forall>M B u net k text body.
        k < nat M \<and> net k = Response 200 text body \<and>
        (\<forall>i<k. \<forall>t b. net i \<noteq> Response 200 t b) \<longrightarrow>
        returned (nba_fetch M B u net) = body \<and> requests (nba_fetch M B u net) = Suc k"
  have "(0::nat) < nat 8 \<and>
        ?net 0 = Response 200 ''<html>'' (Inl (ValueError ''Expecting value'')) \<and>
        (\<forall>i<0. \<forall>t b. ?net i \<noteq> Response 200 t b)"
    by simp
  from a [rule_format, where M = 8 and B = "Finite (5 / 4)" and u = "\<lambda>i. 0" and net = ?net, OF this]
  have r: "requests (nba_fetch 8 (Finite (5 / 4)) (\<lambda>i. 0) ?net) = Suc 0" by (rule conjunct2)
  have "requests (nba_fetch 8 (Finite (5 / 4)) (\<lambda>i. 0) ?net) = 2"
    by code_simp
  with r show False by simp
qed

subsection \<open>The completed games in the lookback window\<close>

text \<open>
  \<open>qualifies\<close> is the test the loop of \<open>read_completed_index\<close> makes on a row: the trimmed
  ESPN Game ID is not empty, the Game Date parses, and the date is not before the cutoff.
\<close>

definition qualifies :: "pylib \<Rightarrow> (string \<rightharpoonup> nat) \<Rightarrow> datetime \<Rightarrow> string list \<Rightarrow> bool" where
  "qualifies lib col cutoff r =
     (\<exists>e d gdt. getv col r ''ESPN Game ID'' = Inr e \<and> py_strip e \<noteq> [] \<and>
        getv col r ''Game Date'' = Inr d \<and> parse_sheet_date lib d = Some gdt \<and> cutoff \<le> gdt)"

lemma completed_row_cases:
  assumes "completed_row lib col cutoff i r acc = Inr acc'"
  shows "(qualifies lib col cutoff r \<and> (\<exists>ref. snd acc' = snd acc @ [ref] \<and> rownum ref = i)) \<or>
         (\<not> qualifies lib col cutoff r \<and> snd acc' = snd acc)"
proof -
  from assms obtain team opp ha gd es nb where g:
    "getv col r ''Team'' = Inr team" "getv col r ''Opponent'' = Inr opp"
    "getv col r ''HomeAway'' = Inr ha" "getv col r ''Game Date'' = Inr gd"
    "getv col r ''ESPN Game ID'' = Inr es" "getv col r ''NBA Game ID'' = Inr nb"
    unfolding completed_row_def bind_exn_def by (auto split: sum.splits)
  show ?thesis
  proof (cases "parse_sheet_date lib gd")
    case None
    with assms g show ?thesis
      by (auto simp: completed_row_def bind_exn_def qualifies_def)
  next
    case (Some gdt)
    with assms g show ?thesis
      by (auto simp: completed_row_def bind_exn_def qualifies_def Let_def split: if_splits)
  qed
qed

lemma completed_rows_rownums:
  "completed_rows lib col cutoff i rs acc = Inr acc' \<Longrightarrow>
   rownum ` set (snd acc') =
     rownum ` set (snd acc) \<union> {i + k |k. k < length rs \<and> qualifies lib col cutoff (rs ! k)}"
proof (induction rs arbitrary: i acc)
  case Nil
  then show ?case by simp
next
  case (Cons r rs)
  from Cons.prems obtain mid where
    m: "completed_row lib col cutoff i r acc = Inr mid"
    and rest: "completed_rows lib col cutoff (Suc i) rs mid = Inr acc'"
    by (auto simp: bind_exn_def split: sum.splits)
  have split: "{i + k |k. k < length (r # rs) \<and> qualifies lib col cutoff ((r # rs) ! k)} =
        (if qualifies lib col cutoff r then {i} else {}) \<union>
        {Suc i + k |k. k < length rs \<and> qualifies lib col cutoff (rs ! k)}"
    (is "?L = ?R")
  proof (rule set_eqI)
    fix x
    show "x \<in> ?L \<longleftrightarrow> x \<in> ?R"
    proof
      assume "x \<in> ?L"
      then obtain k where k: "x = i + k" "k < length (r # rs)" "qualifies lib col cutoff ((r # rs) ! k)"
        by blast
      then show "x \<in> ?R" by (cases k) auto
    next
      assume "x \<in> ?R"
      then consider "qualifies lib col cutoff r" "x = i"
        | k where "x = Suc i + k" "k < length rs" "qualifies lib col cutoff (rs ! k)"
        by (auto split: if_splits)
      then show "x \<in> ?L"
      proof cases
        case 1
        then have "x = i + 0 \<and> 0 < length (r # rs) \<and> qualifies lib col cutoff ((r # rs) ! 0)"
          by simp
        then show ?thesis by blast
      next
        case 2
        then have "x = i + Suc k \<and> Suc k < length (r # rs) \<and> qualifies lib col cutoff ((r # rs) ! Suc k)"
          by simp
        then show ?thesis by blast
      qed
    qed
  qed
  from completed_row_cases [OF m]
  have "rownum ` set (snd mid) =
        rownum ` set (snd acc) \<union> (if qualifies lib col cutoff r then {i} else {})"
    by auto
  with Cons.IH [OF rest] show ?case unfolding split by auto
qed


lemma header_index_dom: "header_index hs h \<noteq> None \<longleftrightarrow> h \<in> set hs \<and> h \<noteq> []"
proof -
  have "fst ` set (filter (\<lambda>(h, i). h \<noteq> []) (zip hs [0..<length hs])) = {h \<in> set hs. h \<noteq> []}"
  proof (rule set_eqI)
    fix x
    show "x \<in> fst ` set (filter (\<lambda>(h, i). h \<noteq> []) (zip hs [0..<length hs])) \<longleftrightarrow>
          x \<in> {h \<in> set hs. h \<noteq> []}"
    proof
      assume "x \<in> fst ` set (filter (\<lambda>(h, i). h \<noteq> []) (zip hs [0..<length hs]))"
      then obtain i where "(x, i) \<in> set (zip hs [0..<length hs])" "x \<noteq> []" by auto
      then show "x \<in> {h \<in> set hs. h \<noteq> []}" by (auto dest: set_zip_leftD)
    next
      assume "x \<in> {h \<in> set hs. h \<noteq> []}"
      then obtain i where i: "i < length hs" "hs ! i = x" "x \<noteq> []"
        by (auto simp: in_set_conv_nth)
      then have "(x, i) \<in> set (zip hs [0..<length hs])"
        by (auto simp: set_zip)
      with i(3) have "(x, i) \<in> set (filter (\<lambda>(h, i). h \<noteq> []) (zip hs [0..<length hs]))"
        by simp
      then show "x \<in> fst ` set (filter (\<lambda>(h, i). h \<noteq> []) (zip hs [0..<length hs]))"
        by force
    qed
  qed
  then show ?thesis
    unfolding header_index_def by (simp add: map_of_eq_None_iff)
qed

lemma ensure_headers_total:
  assumes "header \<noteq> []" "hd header \<noteq> []" "\<forall>h\<in>set required. h \<noteq> []"
  shows "\<exists>hr. ensure_headers tab header required = Inr hr \<and>
              (\<forall>h\<in>set required. existing hr h \<noteq> None)"
proof -
  let ?hs = "map py_strip (hd header)"
  let ?missing = "filter (\<lambda>h. header_index ?hs h = None) required"
  show ?thesis
  proof (cases "?missing = []")
    case True
    then have "\<forall>h\<in>set required. header_index ?hs h \<noteq> None"
      by (simp add: filter_empty_conv)
    with assms True show ?thesis by (simp add: ensure_headers_def Let_def)
  next
    case False
    have "header_index (?hs @ ?missing) h \<noteq> None" if "h \<in> set required" for h
    proof (cases "header_index ?hs h = None")
      case True
      with that have "h \<in> set ?missing" by simp
      with that assms(3) show ?thesis unfolding header_index_dom by simp
    next
      case False
      then show ?thesis unfolding header_index_dom by simp
    qed
    with assms False show ?thesis by (simp add: ensure_headers_def Let_def)
  qed
qed

lemma completed_row_total:
  assumes "\<forall>h\<in>set COMPLETED_EXPECTED. col h \<noteq> None"
  shows "\<exists>acc'. completed_row lib col cutoff i r acc = Inr acc'"
proof -
  from assms obtain a b c d e f where
    "col ''Team'' = Some a" "col ''Opponent'' = Some b" "col ''HomeAway'' = Some c"
    "col ''Game Date'' = Some d" "col ''ESPN Game ID'' = Some e" "col ''NBA Game ID'' = Some f"
    by (auto simp: COMPLETED_EXPECTED_def)
  then show ?thesis
    by (simp add: completed_row_def bind_exn_def getv_def Let_def split: option.splits)
qed

lemma completed_rows_total:
  assumes "\<forall>h\<in>set COMPLETED_EXPECTED. col h \<noteq> None"
  shows "\<exists>acc'. completed_rows lib col cutoff i rs acc = Inr acc'"
proof (induction rs arbitrary: i acc)
  case Nil
  then show ?case by simp
next
  case (Cons r rs)
  from completed_row_total [OF assms] obtain mid where
    "completed_row lib col cutoff i r acc = Inr mid" by blast
  with Cons [of "Suc i" mid] show ?case by (simp add: bind_exn_def)
qed

text \<open>
  Claim C7, as amended. With a header row and a cutoff that can be computed,
  \<open>read_completed_index\<close> returns: no row makes it raise. Row \<open>k\<close> of the data (sheet row
  \<open>k + 2\<close>) is put into \<open>row_refs\<close> if and only if its ESPN Game ID is not empty after
  trimming, its Game Date parses, and the parsed date is not earlier than
  \<open>now - LOOKBACK_DAYS\<close> days. There is no upper bound on the date.
\<close>

theorem read_completed_index_lookback:
  "(header \<noteq> [] \<and> hd header \<noteq> [] \<and> sub_days now N = Inr cutoff \<longrightarrow>
      (\<exists>ci. read_completed_index lib now N tab header data = Inr ci)) \<and>
   (read_completed_index lib now N tab header data = Inr ci \<and> k < length data \<longrightarrow>
      ((\<exists>ref\<in>set (row_refs ci). rownum ref = k + 2) \<longleftrightarrow>
       (\<exists>e d gdt.
          getv (completed_col ci) (data ! k) ''ESPN Game ID'' = Inr e \<and> py_strip e \<noteq> [] \<and>
          getv (completed_col ci) (data ! k) ''Game Date'' = Inr d \<and>
          parse_sheet_date lib d = Some gdt \<and> now - N * 86400000000 \<le> gdt)))"
proof (intro conjI impI)
  assume a: "header \<noteq> [] \<and> hd header \<noteq> [] \<and> sub_days now N = Inr cutoff"
  have "\<forall>h\<in>set COMPLETED_EXPECTED. h \<noteq> []" by (simp add: COMPLETED_EXPECTED_def)
  with a ensure_headers_total [of header COMPLETED_EXPECTED tab] obtain hr where
    hr: "ensure_headers tab header COMPLETED_EXPECTED = Inr hr"
    and dom: "\<forall>h\<in>set COMPLETED_EXPECTED. existing hr h \<noteq> None"
    by blast
  from completed_rows_total [OF dom] obtain acc where
    "completed_rows lib (existing hr) cutoff 2 data ([], []) = Inr acc" by blast
  with a hr show "\<exists>ci. read_completed_index lib now N tab header data = Inr ci"
    by (simp add: read_completed_index_def bind_exn_def)
next
  assume b: "read_completed_index lib now N tab header data = Inr ci \<and> k < length data"
  then obtain hr c acc where
    hr: "ensure_headers tab header COMPLETED_EXPECTED = Inr hr"
    and c: "sub_days now N = Inr c"
    and acc: "completed_rows lib (existing hr) c 2 data ([], []) = Inr acc"
    and ci: "ci = \<lparr>completed_col = existing hr, espn_to_info = fst acc, row_refs = snd acc\<rparr>"
    by (auto simp: read_completed_index_def bind_exn_def split: sum.splits)
  from c have cv: "c = now - N * 86400000000"
    by (auto simp: sub_days_def split: if_splits)
  from completed_rows_rownums [OF acc]
  have "rownum ` set (snd acc) = {2 + j |j. j < length data \<and> qualifies lib (existing hr) c (data ! j)}"
    by simp
  then have "(\<exists>ref\<in>set (snd acc). rownum ref = k + 2) \<longleftrightarrow>
             (k + 2 \<in> {2 + j |j. j < length data \<and> qualifies lib (existing hr) c (data ! j)})"
    by (metis (no_types, lifting) image_iff)
  also have "\<dots> \<longleftrightarrow> qualifies lib (existing hr) c (data ! k)"
    using b by auto
  finally show "(\<exists>ref\<in>set (row_refs ci). rownum ref = k + 2) \<longleftrightarrow>
       (\<exists>e d gdt.
          getv (completed_col ci) (data ! k) ''ESPN Game ID'' = Inr e \<and> py_strip e \<noteq> [] \<and>
          getv (completed_col ci) (data ! k) ''Game Date'' = Inr d \<and>
          parse_sheet_date lib d = Some gdt \<and> now - N * 86400000000 \<le> gdt)"
    unfolding ci qualifies_def cv by simp
qed


text \<open>
  An example: on 2026-11-04 at noon with a lookback of 60 days, three home rows dated
  2026-11-01, 2026-07-01 and 2030-01-01. The dates are written as the microsecond
  counts of \<open>datetime(2026, 11, 1)\<close>, \<open>datetime(2026, 7, 1)\<close> and \<open>datetime(2030, 1, 1)\<close>.
\<close>

definition sample_lib :: pylib where
  "sample_lib =
     \<lparr>strptime = (\<lambda>s fmt.
        if fmt = ''%Y-%m-%d'' \<and> s = ''2026-11-01'' then Some 63929088000000000
        else if fmt = ''%Y-%m-%d'' \<and> s = ''2026-07-01'' then Some 63918460800000000
        else if fmt = ''%Y-%m-%d'' \<and> s = ''2030-01-01'' then Some 64029052800000000
        else None),
      fromisoformat = (\<lambda>s. None),
      strftime = (\<lambda>d fmt. []),
      float_str = (\<lambda>s. None),
      str_json = (\<lambda>v. [])\<rparr>"

definition sample_now :: datetime where
  "sample_now = 63929390400000000"

definition sample_completed :: "string list list" where
  "sample_completed =
     [[''Los Angeles Lakers'', ''Boston Celtics'', ''home'', ''2026-11-01'', ''401580001''],
      [''Los Angeles Lakers'', ''Boston Celtics'', ''home'', ''2026-07-01'', ''401580002''],
      [''Los Angeles Lakers'', ''Boston Celtics'', ''home'', ''2030-01-01'', ''401580003'']]"

theorem read_completed_index_lookback_witness:
  "\<exists>ci. read_completed_index sample_lib sample_now 60 ''NBA_COMPLETED_GAMES''
          [COMPLETED_EXPECTED] sample_completed = Inr ci \<and>
        map rownum (row_refs ci) = [2, 4] \<and>
        (\<exists>e d gdt.
          getv (completed_col ci) (sample_completed ! 0) ''ESPN Game ID'' = Inr e \<and>
          py_strip e \<noteq> [] \<and>
          getv (completed_col ci) (sample_completed ! 0) ''Game Date'' = Inr d \<and>
          parse_sheet_date sample_lib d = Some gdt \<and> sample_now - 60 * 86400000000 \<le> gdt)"
proof -
  let ?read = "read_completed_index sample_lib sample_now 60 ''NBA_COMPLETED_GAMES''
          [COMPLETED_EXPECTED] sample_completed"
  have h: "[COMPLETED_EXPECTED] \<noteq> [] \<and> hd [COMPLETED_EXPECTED] \<noteq> [] \<and>
        sub_days sample_now 60 = Inr 63924206400000000"
    by code_simp
  from read_completed_index_lookback [THEN conjunct1, THEN mp, OF h]
  obtain ci where ci: "?read = Inr ci" by blast
  have "(case ?read of Inr ci \<Rightarrow> map rownum (row_refs ci) | Inl e \<Rightarrow> []) = [2, 4]"
    by code_simp
  with ci have refs: "map rownum (row_refs ci) = [2, 4]" by simp
  then have "2 \<in> rownum ` set (row_refs ci)" by (metis list.set_intros(1) set_map)
  then obtain r where "r \<in> set (row_refs ci)" "rownum r = 2" by auto
  then have l: "\<exists>ref\<in>set (row_refs ci). rownum ref = 0 + 2"
    by (intro bexI [of _ r]) simp_all
  have k: "0 < length sample_completed" by (simp add: sample_completed_def)
  note q = read_completed_index_lookback
    [THEN conjunct2, THEN mp, OF conjI [OF ci k], THEN iffD1, OF l]
  show ?thesis
  proof (rule exI [of _ ci], intro conjI)
    show "?read = Inr ci" by (rule ci)
    show "map rownum (row_refs ci) = [2, 4]" by (rule refs)
    show "\<exists>e d gdt.
          getv (completed_col ci) (sample_completed ! 0) ''ESPN Game ID'' = Inr e \<and>
          py_strip e \<noteq> [] \<and>
          getv (completed_col ci) (sample_completed ! 0) ''Game Date'' = Inr d \<and>
          parse_sheet_date sample_lib d = Some gdt \<and> sample_now - 60 * 86400000000 \<le> gdt"
      by (rule q)
  qed
qed

text \<open>
  The claim as stated, with the window \<open>(now - N days, now]\<close>, fails: the row dated
  2030-01-01 lies after \<open>now\<close> and is put into \<open>row_refs\<close> all the same.
\<close>

theorem read_completed_index_window_counterexample:
  "\<not> (\<forall>lib now N tab header data ci k.
        read_completed_index lib now N tab header data = Inr ci \<and> k < length data \<longrightarrow>
        ((\<exists>ref\<in>set (row_refs ci). rownum ref = k + 2) \<longleftrightarrow>
         (\<exists>e d gdt.
            getv (completed_col ci) (data ! k) ''ESPN Game ID'' = Inr e \<and> e \<noteq> [] \<and>
            getv (completed_col ci) (data ! k) ''Game Date'' = Inr d \<and>
            parse_sheet_date lib d = Some gdt \<and>
            now - N * 86400000000 < gdt \<and> gdt \<le> now)))"
proof
  let ?read = "read_completed_index sample_lib sample_now 60 ''NBA_COMPLETED_GAMES''
          [COMPLETED_EXPECTED] sample_completed"
  assume a: "\<forall>lib now N tab header data ci k.
        read_completed_index lib now N tab header data = Inr ci \<and> k < length data \<longrightarrow>
        ((\<exists>ref\<in>set (row_refs ci). rownum ref = k + 2) \<longleftrightarrow>
         (\<exists>e d gdt.
            getv (completed_col ci) (data ! k) ''ESPN Game ID'' = Inr e \<and> e \<noteq> [] \<and>
            getv (completed_col ci) (data ! k) ''Game Date'' = Inr d \<and>
            parse_sheet_date lib d = Some gdt \<and>
            now - N * 86400000000 < gdt \<and> gdt \<le> now))"
  have e1: "(case ?read of Inr ci \<Rightarrow> map rownum (row_refs ci) | Inl e \<Rightarrow> []) = [2, 4]"
    by code_simp
  then obtain ci where ci: "?read = Inr ci" by (cases ?read) simp_all
  with e1 have "map rownum (row_refs ci) = [2, 4]" by simp
  then have "4 \<in> rownum ` set (row_refs ci)"
    by (metis list.set_intros(1) list.set_intros(2) set_map)
  then have l: "\<exists>ref\<in>set (row_refs ci). rownum ref = 2 + 2" by auto
  have k: "2 < length sample_completed" by (simp add: sample_completed_def)
  from a [rule_format, OF conjI [OF ci k], THEN iffD1, OF l] obtain d gdt where
    d: "getv (completed_col ci) (sample_completed ! 2) ''Game Date'' = Inr d"
    and p: "parse_sheet_date sample_lib d = Some gdt" and le: "gdt \<le> sample_now"
    by blast
  have "(case ?read of Inr ci \<Rightarrow> getv (completed_col ci) (sample_completed ! 2) ''Game Date''
          | Inl e \<Rightarrow> Inl e) = Inr ''2030-01-01''"
    by code_simp
  with ci d have dv: "d = ''2030-01-01''" by simp
  have pv: "parse_sheet_date sample_lib ''2030-01-01'' = Some 64029052800000000"
    by code_simp
  from p have "Some gdt = Some 64029052800000000" unfolding dv pv by (rule sym)
  then have "gdt = 64029052800000000" by (simp only: option.inject)
  with le have "(64029052800000000::int) \<le> 63929390400000000"
    unfolding sample_now_def by (simp only:)
  then show False by simp
qed

subsection \<open>The status of a built row\<close>

lemma bind_exn_Inr_iff: "bind_exn m f = Inr y \<longleftrightarrow> (\<exists>x. m = Inr x \<and> f x = Inr y)"
  by (cases m) (simp_all add: bind_exn_def)

lemma bind_exn_InrE:
  assumes "bind_exn m f = Inr y"
  obtains x where "m = Inr x" "f x = Inr y"
  using assms by (auto simp: bind_exn_Inr_iff)

lemma case_prod_InrE:
  assumes "(case p of (a, b) \<Rightarrow> g a b) = Inr y"
  obtains a b where "p = (a, b)" "g a b = Inr y"
  using assms by (cases p) auto

lemma field_pairs_length:
  "field_pairs h a aix names = Inr xs \<Longrightarrow> length xs = 2 * length names"
proof (induction names arbitrary: xs)
  case Nil
  then show ?case by simp
next
  case (Cons n names)
  from Cons.prems obtain x y rest where
    "field_pairs h a aix names = Inr rest" "xs = x # y # rest"
    by (auto simp: bind_exn_Inr_iff)
  with Cons.IH [of rest] show ?case by simp
qed

lemma adv_column_Status: "adv_column ''Status'' = 25"
  by code_simp

lemma field_pairs_single:
  "field_pairs h a aix [f] = Inr xs \<Longrightarrow>
   \<exists>x y. field_of h aix f = Inr x \<and> field_of a aix f = Inr y \<and> xs = [x, y]"
  by (auto simp: bind_exn_Inr_iff)

lemma fetch_adv_row_steps:
  assumes "fetch_adv_row lib now_iso tf af gid hint key = Inr row"
  shows "\<exists>trad adv th tr ah ar tix aix home_adv away_adv home_trad away_trad hteam ateam
           hp ap hposs aposs rest.
    tf = Inr trad \<and> af = Inr adv \<and>
    parse_resultset trad ''TeamStats'' = Inr (th, tr) \<and>
    parse_resultset adv ''TeamStats'' = Inr (ah, ar) \<and>
    idx_map lib th = Inr tix \<and> idx_map lib ah = Inr aix \<and>
    pick_home_away lib ar aix = Inr (home_adv, away_adv) \<and>
    pick_home_away lib tr tix = Inr (home_trad, away_trad) \<and>
    team_full lib home_adv aix = Inr hteam \<and> team_full lib away_adv aix = Inr ateam \<and>
    subscript home_trad (tix ''PTS'') = Inr hp \<and> subscript away_trad (tix ''PTS'') = Inr ap \<and>
    field_of home_adv aix ''POSS'' = Inr hposs \<and> field_of away_adv aix ''POSS'' = Inr aposs \<and>
    length rest = 14 \<and>
    row =
      [JStr (case hint of None \<Rightarrow> [] | Some dt \<Rightarrow> strftime lib dt ''%m/%d/%Y %H:%M''),
       JStr (if key \<noteq> [] then py_strip key else build_key lib hint hteam ateam),
       JStr gid, JStr hteam, JStr ateam, hp, ap,
       (if is_num lib hp \<and> is_num lib ap
        then JFloat (float_add (float_of lib hp) (float_of lib ap)) else JStr []),
       hposs, aposs,
       (if is_num lib hposs \<and> is_num lib aposs
        then JFloat (float_half (float_add (float_of lib hposs) (float_of lib aposs)))
        else JStr [])] @
      rest @
      [JStr (if is_num lib hp \<and> is_num lib ap then ''OK'' else ''ERR: missing points''),
       JStr now_iso]"
proof -
  have "\<exists>trad adv th tr ah ar tix aix home_adv away_adv home_trad away_trad
          hteam ateam hp ap poss rest.
    tf = Inr trad \<and> af = Inr adv \<and>
    parse_resultset trad ''TeamStats'' = Inr (th, tr) \<and>
    parse_resultset adv ''TeamStats'' = Inr (ah, ar) \<and>
    idx_map lib th = Inr tix \<and> idx_map lib ah = Inr aix \<and>
    pick_home_away lib ar aix = Inr (home_adv, away_adv) \<and>
    pick_home_away lib tr tix = Inr (home_trad, away_trad) \<and>
    team_full lib home_adv aix = Inr hteam \<and> team_full lib away_adv aix = Inr ateam \<and>
    subscript home_trad (tix ''PTS'') = Inr hp \<and> subscript away_trad (tix ''PTS'') = Inr ap \<and>
    field_pairs home_adv away_adv aix [''POSS''] = Inr poss \<and>
    field_pairs home_adv away_adv aix
                 [''OFF_RATING'', ''EFG_PCT'', ''TS_PCT'', ''FTA_RATE'', ''TM_TOV_PCT'',
                  ''FG3A_RATE'', ''OREB_PCT''] = Inr rest \<and>
       (let total_pts =
             (if is_num lib hp \<and> is_num lib ap
              then JFloat (float_add (float_of lib hp) (float_of lib ap))
              else JStr []);
           home_poss = poss ! 0;
           away_poss = poss ! 1;
           poss_avg =
             (if is_num lib home_poss \<and> is_num lib away_poss
              then JFloat (float_half (float_add (float_of lib home_poss) (float_of lib away_poss)))
              else JStr []);
           game_date_value =
             (case hint of None \<Rightarrow> [] | Some dt \<Rightarrow> strftime lib dt ''%m/%d/%Y %H:%M'');
           key_value =
             (if key \<noteq> [] then py_strip key
              else build_key lib hint hteam ateam);
           row =
             [JStr game_date_value, JStr key_value, JStr gid, JStr hteam,
              JStr ateam, hp, ap, total_pts, home_poss, away_poss, poss_avg] @
             rest @ [JStr ''OK'', JStr now_iso]
       in (if \<not> is_num lib hp \<or> \<not> is_num lib ap
               then row[adv_column ''Status'' := JStr ''ERR: missing points'']
               else row)) = row"
    using assms unfolding fetch_adv_row_def
    apply (elim bind_exn_InrE case_prod_InrE)
    apply (simp only: Let_def sum.inject)
    apply (intro exI conjI)
                  apply (rule refl | assumption)+
    done
  then obtain trad adv th tr ah ar tix aix home_adv away_adv home_trad away_trad
          hteam ateam hp ap poss rest where
    s: "tf = Inr trad" "af = Inr adv"
      "parse_resultset trad ''TeamStats'' = Inr (th, tr)"
      "parse_resultset adv ''TeamStats'' = Inr (ah, ar)"
      "idx_map lib th = Inr tix" "idx_map lib ah = Inr aix"
      "pick_home_away lib ar aix = Inr (home_adv, away_adv)"
      "pick_home_away lib tr tix = Inr (home_trad, away_trad)"
      "team_full lib home_adv aix = Inr hteam" "team_full lib away_adv aix = Inr ateam"
      "subscript home_trad (tix ''PTS'') = Inr hp" "subscript away_trad (tix ''PTS'') = Inr ap"
    and poss: "field_pairs home_adv away_adv aix [''POSS''] = Inr poss"
    and rest: "field_pairs home_adv away_adv aix
                 [''OFF_RATING'', ''EFG_PCT'', ''TS_PCT'', ''FTA_RATE'', ''TM_TOV_PCT'',
                  ''FG3A_RATE'', ''OREB_PCT''] = Inr rest"
    and row: "row =
       (let total_pts =
             (if is_num lib hp \<and> is_num lib ap
              then JFloat (float_add (float_of lib hp) (float_of lib ap))
              else JStr []);
           home_poss = poss ! 0;
           away_poss = poss ! 1;
           poss_avg =
             (if is_num lib home_poss \<and> is_num lib away_poss
              then JFloat (float_half (float_add (float_of lib home_poss) (float_of lib away_poss)))
              else JStr []);
           game_date_value =
             (case hint of None \<Rightarrow> [] | Some dt \<Rightarrow> strftime lib dt ''%m/%d/%Y %H:%M'');
           key_value =
             (if key \<noteq> [] then py_strip key
              else build_key lib hint hteam ateam);
           r =
             [JStr game_date_value, JStr key_value, JStr gid, JStr hteam,
              JStr ateam, hp, ap, total_pts, home_poss, away_poss, poss_avg] @
             rest @ [JStr ''OK'', JStr now_iso]
       in (if \<not> is_num lib hp \<or> \<not> is_num lib ap
               then r[adv_column ''Status'' := JStr ''ERR: missing points'']
               else r))"
    by blast
  from field_pairs_single [OF poss] obtain hposs aposs where
    p: "field_of home_adv aix ''POSS'' = Inr hposs" "field_of away_adv aix ''POSS'' = Inr aposs"
    and pe: "poss = [hposs, aposs]" by blast
  from field_pairs_length [OF rest] have lr: "length rest = 14" by simp
  have upd: "(xs @ rest @ [s, n])[25 := e] = xs @ rest @ [e, n]" if "length xs = 11" for xs s n e
    using that lr by (simp add: list_update_append)
  let ?xs = "[JStr (case hint of None \<Rightarrow> [] | Some dt \<Rightarrow> strftime lib dt ''%m/%d/%Y %H:%M''),
        JStr (if key \<noteq> [] then py_strip key else build_key lib hint hteam ateam), JStr gid, JStr hteam,
        JStr ateam, hp, ap,
        (if is_num lib hp \<and> is_num lib ap
         then JFloat (float_add (float_of lib hp) (float_of lib ap)) else JStr []),
        hposs, aposs,
        (if is_num lib hposs \<and> is_num lib aposs
         then JFloat (float_half (float_add (float_of lib hposs) (float_of lib aposs)))
         else JStr [])]"
  have final: "row = ?xs @ rest @
      [JStr (if is_num lib hp \<and> is_num lib ap then ''OK'' else ''ERR: missing points''),
       JStr now_iso]"
  proof (cases "is_num lib hp \<and> is_num lib ap")
    case True
    with row pe show ?thesis by (simp add: Let_def)
  next
    case False
    then have f: "\<not> is_num lib hp \<or> \<not> is_num lib ap" by simp
    have "row = (?xs @ rest @ [JStr ''OK'', JStr now_iso])[25 := JStr ''ERR: missing points'']"
      using row f unfolding Let_def adv_column_Status pe by simp
    also have "\<dots> = ?xs @ rest @ [JStr ''ERR: missing points'', JStr now_iso]"
      by (rule upd) simp
    finally show ?thesis using False by simp
  qed
  from s p lr final show ?thesis by blast
qed

lemma fetch_adv_row_shape:
  assumes "fetch_adv_row lib now_iso trad adv gid hint key = Inr row"
  shows "\<exists>d k hteam ateam hp ap hposs aposs rest.
    length rest = 14 \<and>
    row =
      [JStr d, JStr k, JStr gid, JStr hteam, JStr ateam, hp, ap,
       (if is_num lib hp \<and> is_num lib ap
        then JFloat (float_add (float_of lib hp) (float_of lib ap)) else JStr []),
       hposs, aposs,
       (if is_num lib hposs \<and> is_num lib aposs
        then JFloat (float_half (float_add (float_of lib hposs) (float_of lib aposs)))
        else JStr [])] @
      rest @
      [JStr (if is_num lib hp \<and> is_num lib ap then ''OK'' else ''ERR: missing points''),
       JStr now_iso]"
proof -
  from fetch_adv_row_steps [OF assms] obtain hteam ateam hp ap hposs aposs rest where
    "length rest = 14"
    "row =
      [JStr (case hint of None \<Rightarrow> [] | Some dt \<Rightarrow> strftime lib dt ''%m/%d/%Y %H:%M''),
       JStr (if key \<noteq> [] then py_strip key else build_key lib hint hteam ateam),
       JStr gid, JStr hteam, JStr ateam, hp, ap,
       (if is_num lib hp \<and> is_num lib ap
        then JFloat (float_add (float_of lib hp) (float_of lib ap)) else JStr []),
       hposs, aposs,
       (if is_num lib hposs \<and> is_num lib aposs
        then JFloat (float_half (float_add (float_of lib hposs) (float_of lib aposs)))
        else JStr [])] @
      rest @
      [JStr (if is_num lib hp \<and> is_num lib ap then ''OK'' else ''ERR: missing points''),
       JStr now_iso]"
    by blast
  then show ?thesis by blast
qed

lemma adv_column_values:
  "adv_column ''Game ID'' = 2" "adv_column ''Home Pts'' = 5" "adv_column ''Away Pts'' = 6"
  "adv_column ''Total Pts'' = 7" "adv_column ''Home Poss'' = 8" "adv_column ''Away Poss'' = 9"
  "adv_column ''Poss Avg'' = 10" "adv_column ''Last Attempt'' = 26" "adv_column ''Key'' = 1"
  by code_simp+

lemma is_num_cases:
  "is_num lib x =
     (case x of
        JNull \<Rightarrow> False
      | JBool b \<Rightarrow> True
      | JInt i \<Rightarrow> \<bar>i\<bar> < 2 ^ 1024 - 2 ^ 970
      | JFloat f \<Rightarrow> f \<noteq> NaN
      | JStr s \<Rightarrow> s \<noteq> [] \<and> (\<exists>f. float_str lib s = Some f \<and> f \<noteq> NaN)
      | JList xs \<Rightarrow> False
      | JObj kvs \<Rightarrow> False)"
  by (cases x) (auto simp: is_num_def py_float_def split: option.splits)

text \<open>
  Two examples. In the first one the traditional box score has no points for the home
  team, the advanced box score has 100 and 98 possessions, and the key is already in the
  table. In the second one the rows of both responses come away team first, with a
  \<open>MATCHUP\<close> column, and the home points are the string \<open>"121"\<close>. The library of the
  examples prints the date of the game and reads \<open>"121"\<close> as a float.
\<close>

definition boxscore_lib :: pylib where
  "boxscore_lib =
     \<lparr>strptime = (\<lambda>s fmt. None),
      fromisoformat = (\<lambda>s. None),
      strftime = (\<lambda>d fmt.
        if d = 63929088000000000 \<and> fmt = ''%m/%d/%Y %H:%M'' then ''11/01/2026 00:00''
        else if d = 63929088000000000 \<and> fmt = ''%Y%m%d'' then ''20261101''
        else []),
      float_str = (\<lambda>s. if s = ''121'' then Some (Finite 121) else None),
      str_json = (\<lambda>v. [])\<rparr>"

definition sample_trad :: json where
  "sample_trad =
     JObj [(''resultSets'',
       JList [JObj [(''name'', JStr ''PlayerStats''), (''headers'', JList [JStr ''PTS'']), (''rowSet'', JList [])],
              JObj [(''name'', JStr ''TeamStats''),
                    (''headers'', JList [JStr ''GAME_ID'', JStr ''TEAM_ID'', JStr ''PTS'']),
                    (''rowSet'', JList [JList [JStr ''0022300456'', JInt 1610612747, JNull],
                                        JList [JStr ''0022300456'', JInt 1610612738, JInt 110]])]])]"

definition sample_adv :: json where
  "sample_adv =
     JObj [(''resultSets'',
       JList [JObj [(''name'', JStr ''TeamStats''),
                    (''headers'', JList [JStr ''GAME_ID'', JStr ''TEAM_ID'', JStr ''TEAM_NAME'',
                                         JStr ''TEAM_CITY'', JStr ''POSS'', JStr ''OFF_RATING'']),
                    (''rowSet'', JList [JList [JStr ''0022300456'', JInt 1610612747, JStr ''Lakers'',
                                               JStr ''Los Angeles'', JInt 100, JFloat (Finite (1123 / 10))],
                                        JList [JStr ''0022300456'', JInt 1610612738, JStr ''Celtics'',
                                               JStr ''Boston'', JInt 98, JFloat (Finite (1105 / 10))]])]])]"

definition sample_trad_ok :: json where
  "sample_trad_ok =
     JObj [(''resultSets'',
       JList [JObj [(''name'', JStr ''PlayerStats''), (''headers'', JList [JStr ''PTS'']), (''rowSet'', JList [])],
              JObj [(''name'', JStr ''TeamStats''),
                    (''headers'', JList [JStr ''GAME_ID'', JStr ''MATCHUP'', JStr ''PTS'']),
                    (''rowSet'', JList [JList [JStr ''0022300456'', JStr ''BOS @ LAL'', JInt 110],
                                        JList [JStr ''0022300456'', JStr ''LAL vs BOS'', JStr ''121'']])]])]"

definition sample_adv_ok :: json where
  "sample_adv_ok =
     JObj [(''resultSets'',
       JList [JObj [(''name'', JStr ''TeamStats''),
                    (''headers'', JList [JStr ''GAME_ID'', JStr ''MATCHUP'', JStr ''TEAM_NAME'',
                                         JStr ''TEAM_CITY'', JStr ''POSS'', JStr ''OFF_RATING'']),
                    (''rowSet'', JList [JList [JStr ''0022300456'', JStr ''BOS @ LAL'', JStr ''Celtics'',
                                               JStr ''Boston'', JInt 98, JFloat (Finite (1105 / 10))],
                                        JList [JStr ''0022300456'', JStr ''LAL vs BOS'', JStr ''Lakers'',
                                               JStr ''LA'', JInt 100, JFloat (Finite (1123 / 10))]])]])]"

lemma fetch_adv_row_ok_example:
  "fetch_adv_row boxscore_lib ''2026-11-04T12:00:00-08:00'' (Inr sample_trad_ok)
     (Inr sample_adv_ok) ''0022300456'' (Some 63929088000000000) [] =
   Inr [JStr ''11/01/2026 00:00'', JStr ''20261101|los angeles lakers|boston celtics'',
        JStr ''0022300456'', JStr ''LA Lakers'', JStr ''Boston Celtics'',
        JStr ''121'', JInt 110, JFloat (Finite 231), JInt 100, JInt 98,
        JFloat (Finite 99), JFloat (Finite (1123 / 10)), JFloat (Finite (221 / 2)),
        JStr [], JStr [], JStr [], JStr [], JStr [], JStr [], JStr [], JStr [], JStr [],
        JStr [], JStr [], JStr [], JStr ''OK'', JStr ''2026-11-04T12:00:00-08:00'']"
  by code_simp

lemma fetch_adv_row_err_example:
  "fetch_adv_row boxscore_lib ''2026-11-04T12:00:00-08:00'' (Inr sample_trad)
     (Inr sample_adv) ''0022300456'' (Some 63929088000000000) ''  20261101|lal|bos '' =
   Inr [JStr ''11/01/2026 00:00'', JStr ''20261101|lal|bos'',
        JStr ''0022300456'', JStr ''Los Angeles Lakers'', JStr ''Boston Celtics'',
        JNull, JInt 110, JStr [], JInt 100, JInt 98,
        JFloat (Finite 99), JFloat (Finite (1123 / 10)), JFloat (Finite (221 / 2)),
        JStr [], JStr [], JStr [], JStr [], JStr [], JStr [], JStr [], JStr [], JStr [],
        JStr [], JStr [], JStr [], JStr ''ERR: missing points'',
        JStr ''2026-11-04T12:00:00-08:00'']"
  by code_simp

text \<open>
  Claim C4, as amended. When \<open>fetch_adv_row\<close> returns a row, both fetches have returned,
  and the row has 27 cells. Home Pts and Away Pts are the \<open>PTS\<close> cells of the rows that
  \<open>pick_home_away\<close> takes from the \<open>TeamStats\<close> result set of the traditional box score;
  Home Poss and Away Poss are the \<open>POSS\<close> cells of the rows it takes from the advanced
  box score. Status is \<open>OK\<close> if both points values are numeric and
  \<open>ERR: missing points\<close> otherwise; Total Pts is their sum if both are numeric and empty
  otherwise; Poss Avg is half the sum of the possession values if both of these are
  numeric and empty otherwise: Poss Avg does not depend on the points. A value is
  numeric when it is a Boolean, an \<open>int\<close> that \<open>float\<close> can convert, a float other than
  NaN, or a non-empty string that \<open>float\<close> reads as a float other than NaN. The two
  examples give the rows in full.
\<close>

theorem fetch_adv_row_status:
  "(fetch_adv_row lib now_iso tf af gid hint key = Inr row \<longrightarrow>
     (\<exists>trad adv th tr ah ar tix aix home_trad away_trad home_adv away_adv
         home_pts away_pts home_poss away_poss.
        tf = Inr trad \<and> af = Inr adv \<and>
        parse_resultset trad ''TeamStats'' = Inr (th, tr) \<and> idx_map lib th = Inr tix \<and>
        pick_home_away lib tr tix = Inr (home_trad, away_trad) \<and>
        subscript home_trad (tix ''PTS'') = Inr home_pts \<and>
        subscript away_trad (tix ''PTS'') = Inr away_pts \<and>
        parse_resultset adv ''TeamStats'' = Inr (ah, ar) \<and> idx_map lib ah = Inr aix \<and>
        pick_home_away lib ar aix = Inr (home_adv, away_adv) \<and>
        field_of home_adv aix ''POSS'' = Inr home_poss \<and>
        field_of away_adv aix ''POSS'' = Inr away_poss \<and>
        length row = 27 \<and>
        row ! adv_column ''Game ID'' = JStr gid \<and>
        row ! adv_column ''Home Pts'' = home_pts \<and>
        row ! adv_column ''Away Pts'' = away_pts \<and>
        row ! adv_column ''Total Pts'' =
          (if is_num lib home_pts \<and> is_num lib away_pts
           then JFloat (float_add (float_of lib home_pts) (float_of lib away_pts))
           else JStr []) \<and>
        row ! adv_column ''Home Poss'' = home_poss \<and>
        row ! adv_column ''Away Poss'' = away_poss \<and>
        row ! adv_column ''Poss Avg'' =
          (if is_num lib home_poss \<and> is_num lib away_poss
           then JFloat (float_half (float_add (float_of lib home_poss) (float_of lib away_poss)))
           else JStr []) \<and>
        row ! adv_column ''Status'' =
          JStr (if is_num lib home_pts \<and> is_num lib away_pts
                then ''OK'' else ''ERR: missing points'') \<and>
        row ! adv_column ''Last Attempt'' = JStr now_iso)) \<and>
   is_num lib x =
     (case x of
        JNull \<Rightarrow> False
      | JBool b \<Rightarrow> True
      | JInt i \<Rightarrow> \<bar>i\<bar> < 2 ^ 1024 - 2 ^ 970
      | JFloat f \<Rightarrow> f \<noteq> NaN
      | JStr s \<Rightarrow> s \<noteq> [] \<and> (\<exists>f. float_str lib s = Some f \<and> f \<noteq> NaN)
      | JList xs \<Rightarrow> False
      | JObj kvs \<Rightarrow> False) \<and>
   fetch_adv_row boxscore_lib ''2026-11-04T12:00:00-08:00'' (Inr sample_trad_ok)
     (Inr sample_adv_ok) ''0022300456'' (Some 63929088000000000) [] =
   Inr [JStr ''11/01/2026 00:00'', JStr ''20261101|los angeles lakers|boston celtics'',
        JStr ''0022300456'', JStr ''LA Lakers'', JStr ''Boston Celtics'',
        JStr ''121'', JInt 110, JFloat (Finite 231), JInt 100, JInt 98,
        JFloat (Finite 99), JFloat (Finite (1123 / 10)), JFloat (Finite (221 / 2)),
        JStr [], JStr [], JStr [], JStr [], JStr [], JStr [], JStr [], JStr [], JStr [],
        JStr [], JStr [], JStr [], JStr ''OK'', JStr ''2026-11-04T12:00:00-08:00''] \<and>
   fetch_adv_row boxscore_lib ''2026-11-04T12:00:00-08:00'' (Inr sample_trad)
     (Inr sample_adv) ''0022300456'' (Some 63929088000000000) ''  20261101|lal|bos '' =
   Inr [JStr ''11/01/2026 00:00'', JStr ''20261101|lal|bos'',
        JStr ''0022300456'', JStr ''Los Angeles Lakers'', JStr ''Boston Celtics'',
        JNull, JInt 110, JStr [], JInt 100, JInt 98,
        JFloat (Finite 99), JFloat (Finite (1123 / 10)), JFloat (Finite (221 / 2)),
        JStr [], JStr [], JStr [], JStr [], JStr [], JStr [], JStr [], JStr [], JStr [],
        JStr [], JStr [], JStr [], JStr ''ERR: missing points'',
        JStr ''2026-11-04T12:00:00-08:00'']"
proof (intro conjI impI)
  assume "fetch_adv_row lib now_iso tf af gid hint key = Inr row"
  from fetch_adv_row_steps [OF this]
  obtain trad adv th tr ah ar tix aix home_adv away_adv home_trad away_trad hteam ateam
           hp ap hposs aposs rest where
    s: "tf = Inr trad" "af = Inr adv"
      "parse_resultset trad ''TeamStats'' = Inr (th, tr)" "idx_map lib th = Inr tix"
      "pick_home_away lib tr tix = Inr (home_trad, away_trad)"
      "subscript home_trad (tix ''PTS'') = Inr hp" "subscript away_trad (tix ''PTS'') = Inr ap"
      "parse_resultset adv ''TeamStats'' = Inr (ah, ar)" "idx_map lib ah = Inr aix"
      "pick_home_away lib ar aix = Inr (home_adv, away_adv)"
      "field_of home_adv aix ''POSS'' = Inr hposs" "field_of away_adv aix ''POSS'' = Inr aposs"
    and lr: "length rest = 14"
    and row: "row =
      [JStr (case hint of None \<Rightarrow> [] | Some dt \<Rightarrow> strftime lib dt ''%m/%d/%Y %H:%M''),
       JStr (if key \<noteq> [] then py_strip key else build_key lib hint hteam ateam),
       JStr gid, JStr hteam, JStr ateam, hp, ap,
       (if is_num lib hp \<and> is_num lib ap
        then JFloat (float_add (float_of lib hp) (float_of lib ap)) else JStr []),
       hposs, aposs,
       (if is_num lib hposs \<and> is_num lib aposs
        then JFloat (float_half (float_add (float_of lib hposs) (float_of lib aposs)))
        else JStr [])] @
      rest @
      [JStr (if is_num lib hp \<and> is_num lib ap then ''OK'' else ''ERR: missing points''),
       JStr now_iso]"
    by blast
  have len: "length row = 27" unfolding row using lr by simp
  have n2: "row ! 2 = JStr gid" and n5: "row ! 5 = hp" and n6: "row ! 6 = ap"
    and n7: "row ! 7 = (if is_num lib hp \<and> is_num lib ap
        then JFloat (float_add (float_of lib hp) (float_of lib ap)) else JStr [])"
    and n8: "row ! 8 = hposs" and n9: "row ! 9 = aposs"
    and n10: "row ! 10 = (if is_num lib hposs \<and> is_num lib aposs
        then JFloat (float_half (float_add (float_of lib hposs) (float_of lib aposs)))
        else JStr [])"
    unfolding row by simp_all
  have n25: "row ! 25 =
      JStr (if is_num lib hp \<and> is_num lib ap then ''OK'' else ''ERR: missing points'')"
    and n26: "row ! 26 = JStr now_iso"
    unfolding row using lr by (simp_all add: nth_append)
  show "\<exists>trad adv th tr ah ar tix aix home_trad away_trad home_adv away_adv
         home_pts away_pts home_poss away_poss.
        tf = Inr trad \<and> af = Inr adv \<and>
        parse_resultset trad ''TeamStats'' = Inr (th, tr) \<and> idx_map lib th = Inr tix \<and>
        pick_home_away lib tr tix = Inr (home_trad, away_trad) \<and>
        subscript home_trad (tix ''PTS'') = Inr home_pts \<and>
        subscript away_trad (tix ''PTS'') = Inr away_pts \<and>
        parse_resultset adv ''TeamStats'' = Inr (ah, ar) \<and> idx_map lib ah = Inr aix \<and>
        pick_home_away lib ar aix = Inr (home_adv, away_adv) \<and>
        field_of home_adv aix ''POSS'' = Inr home_poss \<and>
        field_of away_adv aix ''POSS'' = Inr away_poss \<and>
        length row = 27 \<and>
        row ! adv_column ''Game ID'' = JStr gid \<and>
        row ! adv_column ''Home Pts'' = home_pts \<and>
        row ! adv_column ''Away Pts'' = away_pts \<and>
        row ! adv_column ''Total Pts'' =
          (if is_num lib home_pts \<and> is_num lib away_pts
           then JFloat (float_add (float_of lib home_pts) (float_of lib away_pts))
           else JStr []) \<and>
        row ! adv_column ''Home Poss'' = home_poss \<and>
        row ! adv_column ''Away Poss'' = away_poss \<and>
        row ! adv_column ''Poss Avg'' =
          (if is_num lib home_poss \<and> is_num lib away_poss
           then JFloat (float_half (float_add (float_of lib home_poss) (float_of lib away_poss)))
           else JStr []) \<and>
        row ! adv_column ''Status'' =
          JStr (if is_num lib home_pts \<and> is_num lib away_pts
                then ''OK'' else ''ERR: missing points'') \<and>
        row ! adv_column ''Last Attempt'' = JStr now_iso"
    unfolding adv_column_values adv_column_Status
    apply (intro exI conjI)
                        apply (rule s len n2 n5 n6 n7 n8 n9 n10 n25 n26)+
    done
qed (rule is_num_cases fetch_adv_row_ok_example fetch_adv_row_err_example)+

theorem fetch_adv_row_status_witness:
  "(\<exists>row. fetch_adv_row boxscore_lib ''2026-11-04T12:00:00-08:00'' (Inr sample_trad_ok)
            (Inr sample_adv_ok) ''0022300456'' (Some 63929088000000000) [] = Inr row \<and>
         length row = 27 \<and>
         row ! adv_column ''Home Pts'' = JStr ''121'' \<and>
         row ! adv_column ''Away Pts'' = JInt 110 \<and>
         row ! adv_column ''Status'' = JStr ''OK'' \<and>
         row ! adv_column ''Total Pts'' = JFloat (Finite 231) \<and>
         row ! adv_column ''Poss Avg'' = JFloat (Finite 99)) \<and>
   (\<exists>row. fetch_adv_row boxscore_lib ''2026-11-04T12:00:00-08:00'' (Inr sample_trad)
            (Inr sample_adv) ''0022300456'' (Some 63929088000000000) ''  20261101|lal|bos '' =
            Inr row \<and>
         length row = 27 \<and>
         row ! adv_column ''Home Pts'' = JNull \<and>
         row ! adv_column ''Away Pts'' = JInt 110 \<and>
         row ! adv_column ''Status'' = JStr ''ERR: missing points'' \<and>
         row ! adv_column ''Total Pts'' = JStr [] \<and>
         row ! adv_column ''Poss Avg'' = JFloat (Finite 99))"
proof -
  note t = fetch_adv_row_status [of boxscore_lib "''2026-11-04T12:00:00-08:00''" "Inr sample_trad_ok"
      "Inr sample_adv_ok" "''0022300456''" "Some 63929088000000000" "[]" _ JNull]
  note ok = t [THEN conjunct2, THEN conjunct2, THEN conjunct1]
  note err = t [THEN conjunct2, THEN conjunct2, THEN conjunct2]
  from t [THEN conjunct1, THEN mp, OF ok] have l1: "length
     [JStr ''11/01/2026 00:00'', JStr ''20261101|los angeles lakers|boston celtics'',
        JStr ''0022300456'', JStr ''LA Lakers'', JStr ''Boston Celtics'',
        JStr ''121'', JInt 110, JFloat (Finite 231), JInt 100, JInt 98,
        JFloat (Finite 99), JFloat (Finite (1123 / 10)), JFloat (Finite (221 / 2)),
        JStr [], JStr [], JStr [], JStr [], JStr [], JStr [], JStr [], JStr [], JStr [],
        JStr [], JStr [], JStr [], JStr ''OK'', JStr ''2026-11-04T12:00:00-08:00''] = 27"
    by blast
  show ?thesis
    apply (rule conjI)
     apply (rule exI, rule conjI, rule ok, rule conjI, rule l1)
     apply (simp add: adv_column_values adv_column_Status)
    apply (rule exI, rule conjI, rule err)
    apply (simp add: adv_column_values adv_column_Status)
    done
qed

text \<open>
  The claim as stated fails: in the example one points value is not numeric and Poss Avg
  is \<open>99.0\<close>, not empty.
\<close>

theorem fetch_adv_row_poss_avg_counterexample:
  "\<not> (\<forall>lib now_iso trad adv gid hint key row.
        fetch_adv_row lib now_iso trad adv gid hint key = Inr row \<and>
        (\<not> is_num lib (row ! adv_column ''Home Pts'') \<or>
         \<not> is_num lib (row ! adv_column ''Away Pts'')) \<longrightarrow>
        row ! adv_column ''Status'' = JStr ''ERR: missing points'' \<and>
        row ! adv_column ''Total Pts'' = JStr [] \<and>
        row ! adv_column ''Poss Avg'' = JStr [])"
proof
  let ?f = "fetch_adv_row sample_lib ''2026-11-04T12:00:00-08:00'' (Inr sample_trad)
      (Inr sample_adv) ''0022300456'' (Some 63929088000000000) []"
  assume a: "\<forall>lib now_iso trad adv gid hint key row.
        fetch_adv_row lib now_iso trad adv gid hint key = Inr row \<and>
        (\<not> is_num lib (row ! adv_column ''Home Pts'') \<or>
         \<not> is_num lib (row ! adv_column ''Away Pts'')) \<longrightarrow>
        row ! adv_column ''Status'' = JStr ''ERR: missing points'' \<and>
        row ! adv_column ''Total Pts'' = JStr [] \<and>
        row ! adv_column ''Poss Avg'' = JStr []"
  have e: "map_sum (\<lambda>e. ()) (\<lambda>row. (row ! adv_column ''Home Pts'', row ! adv_column ''Poss Avg'')) ?f =
           Inr (JNull, JFloat (Finite 99))"
    by code_simp
  then obtain row where row: "?f = Inr row" by (cases ?f) simp_all
  from e row have hp: "row ! adv_column ''Home Pts'' = JNull"
    and pa: "row ! adv_column ''Poss Avg'' = JFloat (Finite 99)"
    by simp_all
  have "\<not> is_num sample_lib (row ! adv_column ''Home Pts'')"
    unfolding hp by (simp add: is_num_def)
  then have "\<not> is_num sample_lib (row ! adv_column ''Home Pts'') \<or>
             \<not> is_num sample_lib (row ! adv_column ''Away Pts'')" ..
  from a [rule_format, OF conjI [OF row this]]
  have "row ! adv_column ''Poss Avg'' = JStr []" by simp
  with pa show False by simp
qed

subsection \<open>The upsert orchestrator\<close>

text \<open>
  \<open>gids gid_idx data\<close> lists the Game IDs of the table, row by row, without the empty
  ones.
\<close>

definition gids :: "nat \<Rightarrow> string list list \<Rightarrow> string list" where
  "gids gid_idx data = filter (\<lambda>g. g \<noteq> []) (map (adv_gid gid_idx) data)"




lemma gids_nonempty: "g \<in> set (gids gi rs) \<Longrightarrow> g \<noteq> []"
  by (simp add: gids_def)

text \<open>
  \<open>todo cap idx cands\<close> lists the candidates for which the loop builds a row, in order:
  the first \<open>cap\<close> candidates that are not skipped. \<open>row_for\<close> is the row built in round
  \<open>k\<close> for the candidate \<open>c\<close>, \<open>has_row\<close> is the test \<open>if existing_row\<close>, and
  \<open>plan_updates\<close> and \<open>plan_appends\<close> are the two lists the loop leaves when it builds
  rows for the candidates given, from round \<open>k\<close> on.
\<close>

definition todo :: "int \<Rightarrow> adv_index \<Rightarrow> (string \<times> datetime) list \<Rightarrow> (string \<times> datetime) list" where
  "todo cap idx cands = take (nat cap) (filter (\<lambda>c. \<not> skip_ok idx (fst c)) cands)"

definition row_for ::
  "pylib \<Rightarrow> (nat \<Rightarrow> (exn + json) \<times> (exn + json)) \<Rightarrow> (nat \<Rightarrow> string) \<Rightarrow> adv_index \<Rightarrow> nat \<Rightarrow>
   string \<times> datetime \<Rightarrow> json list" where
  "row_for lib fetched clock idx k c =
     build_row lib (clock k) (fetched k) (fst c) (snd c)
       (case gid_to_key idx (fst c) of None \<Rightarrow> [] | Some key \<Rightarrow> key)"

definition has_row :: "adv_index \<Rightarrow> string \<Rightarrow> bool" where
  "has_row idx nba_id = (case gid_to_row idx nba_id of None \<Rightarrow> False | Some n \<Rightarrow> n \<noteq> 0)"

fun plan_updates ::
  "pylib \<Rightarrow> (nat \<Rightarrow> (exn + json) \<times> (exn + json)) \<Rightarrow> (nat \<Rightarrow> string) \<Rightarrow> adv_index \<Rightarrow> nat \<Rightarrow>
   (string \<times> datetime) list \<Rightarrow> (nat \<times> json list) list" where
  "plan_updates lib fetched clock idx k [] = []"
| "plan_updates lib fetched clock idx k (c # cs) =
     (if has_row idx (fst c)
      then [(the (gid_to_row idx (fst c)), row_for lib fetched clock idx k c)] else []) @
     plan_updates lib fetched clock idx (Suc k) cs"

fun plan_appends ::
  "pylib \<Rightarrow> (nat \<Rightarrow> (exn + json) \<times> (exn + json)) \<Rightarrow> (nat \<Rightarrow> string) \<Rightarrow> adv_index \<Rightarrow> nat \<Rightarrow>
   (string \<times> datetime) list \<Rightarrow> json list list" where
  "plan_appends lib fetched clock idx k [] = []"
| "plan_appends lib fetched clock idx k (c # cs) =
     (if has_row idx (fst c) then [] else [row_for lib fetched clock idx k c]) @
     plan_appends lib fetched clock idx (Suc k) cs"

lemma walk_plan:
  "walk lib cap fetched clock idx cands st =
     st\<lparr>processed := processed st +
            length (take (nat cap - processed st) (filter (\<lambda>c. \<not> skip_ok idx (fst c)) cands)),
        updates := updates st @
            plan_updates lib fetched clock idx (processed st)
              (take (nat cap - processed st) (filter (\<lambda>c. \<not> skip_ok idx (fst c)) cands)),
        appends := appends st @
            plan_appends lib fetched clock idx (processed st)
              (take (nat cap - processed st) (filter (\<lambda>c. \<not> skip_ok idx (fst c)) cands))\<rparr>"
proof (induction cands arbitrary: st)
  case Nil
  then show ?case by simp
next
  case (Cons c cands)
  obtain nba_id dt_hint where c: "c = (nba_id, dt_hint)" by (cases c)
  show ?case
  proof (cases "cap \<le> int (processed st)")
    case True
    then have "nat cap - processed st = 0" by simp
    with True show ?thesis unfolding c by simp
  next
    case False
    then have pos: "nat cap - processed st = Suc (nat cap - Suc (processed st))" by linarith
    show ?thesis
    proof (cases "skip_ok idx nba_id")
      case True
      with False Cons.IH [of st] show ?thesis unfolding c by simp
    next
      case nskip: False
      let ?row = "row_for lib fetched clock idx (processed st) c"
      let ?st' = "if has_row idx nba_id
          then st\<lparr>processed := Suc (processed st),
                  updates := updates st @ [(the (gid_to_row idx nba_id), ?row)]\<rparr>
          else st\<lparr>processed := Suc (processed st), appends := appends st @ [?row]\<rparr>"
      have step: "walk lib cap fetched clock idx (c # cands) st =
                  walk lib cap fetched clock idx cands ?st'"
        using False nskip unfolding c
        by (auto simp: Let_def has_row_def row_for_def split: option.splits)
      have p: "processed ?st' = Suc (processed st)" by simp
      show ?thesis
        unfolding step Cons.IH [of ?st'] p
        using nskip pos unfolding c by simp
    qed
  qed
qed

lemma walk_todo:
  "walk lib cap fetched clock idx cands \<lparr>processed = 0, updates = [], appends = []\<rparr> =
     \<lparr>processed = length (todo cap idx cands),
      updates = plan_updates lib fetched clock idx 0 (todo cap idx cands),
      appends = plan_appends lib fetched clock idx 0 (todo cap idx cands)\<rparr>"
  unfolding walk_plan todo_def by simp

lemma plan_updates_iff:
  "(n, row) \<in> set (plan_updates lib fetched clock idx k cs) \<longleftrightarrow>
     (\<exists>j<length cs. has_row idx (fst (cs ! j)) \<and> gid_to_row idx (fst (cs ! j)) = Some n \<and>
        row = row_for lib fetched clock idx (k + j) (cs ! j))"
proof (induction cs arbitrary: k)
  case Nil
  then show ?case by simp
next
  case (Cons c cs)
  have "(\<exists>j<length (c # cs). P j) \<longleftrightarrow> P 0 \<or> (\<exists>j<length cs. P (Suc j))" for P
    by (metis One_nat_def length_Cons less_Suc_eq_0_disj)
  note ex = this
  have h: "has_row idx g \<Longrightarrow> gid_to_row idx g = Some (the (gid_to_row idx g))" for g
    by (auto simp: has_row_def split: option.splits)
  show ?case
    unfolding plan_updates.simps set_append Un_iff Cons.IH ex
    using h by (auto split: if_splits)
qed

lemma plan_appends_iff:
  "row \<in> set (plan_appends lib fetched clock idx k cs) \<longleftrightarrow>
     (\<exists>j<length cs. \<not> has_row idx (fst (cs ! j)) \<and>
        row = row_for lib fetched clock idx (k + j) (cs ! j))"
proof (induction cs arbitrary: k)
  case Nil
  then show ?case by simp
next
  case (Cons c cs)
  have ex: "(\<exists>j<length (c # cs). P j) \<longleftrightarrow> P 0 \<or> (\<exists>j<length cs. P (Suc j))" for P
    by (metis One_nat_def length_Cons less_Suc_eq_0_disj)
  show ?case
    unfolding plan_appends.simps set_append Un_iff Cons.IH ex
    by (auto split: if_splits)
qed

lemma plan_lengths:
  "length (plan_updates lib fetched clock idx k cs) + length (plan_appends lib fetched clock idx k cs) =
   length cs"
  by (induction cs arbitrary: k) simp_all

lemma length_ADV_COLUMNS: "length ADV_COLUMNS = 27"
  by (simp add: ADV_COLUMNS_def)

lemma error_row_cells:
  "error_row nba_id e now_iso =
     replicate 2 (JStr []) @ [JStr nba_id] @ replicate 22 (JStr []) @
     [JStr (''ERR: '' @ take 160 (exn_str e)), JStr now_iso]"
  unfolding error_row_def length_ADV_COLUMNS adv_column_values adv_column_Status
  by (simp add: numeral_eq_Suc)

lemma error_row_facts:
  "length (error_row nba_id e now_iso) = 27"
  "error_row nba_id e now_iso ! 2 = JStr nba_id"
  "error_row nba_id e now_iso ! 25 = JStr (''ERR: '' @ take 160 (exn_str e))"
  "error_row nba_id e now_iso ! 26 = JStr now_iso"
  unfolding error_row_cells by (simp_all add: nth_append)

lemma fetch_adv_row_facts:
  assumes "fetch_adv_row lib now_iso trad adv gid hint key = Inr row"
  shows "length row = 27" "row ! 2 = JStr gid"
    "row ! 25 = JStr ''OK'' \<or> row ! 25 = JStr ''ERR: missing points''"
    "row ! 26 = JStr now_iso"
proof -
  from fetch_adv_row_shape [OF assms] obtain d k hteam ateam hp ap hposs aposs rest where
    lr: "length rest = 14"
    and row: "row =
      [JStr d, JStr k, JStr gid, JStr hteam, JStr ateam, hp, ap,
       (if is_num lib hp \<and> is_num lib ap
        then JFloat (float_add (float_of lib hp) (float_of lib ap)) else JStr []),
       hposs, aposs,
       (if is_num lib hposs \<and> is_num lib aposs
        then JFloat (float_half (float_add (float_of lib hposs) (float_of lib aposs)))
        else JStr [])] @
      rest @
      [JStr (if is_num lib hp \<and> is_num lib ap then ''OK'' else ''ERR: missing points''),
       JStr now_iso]"
    by blast
  show "length row = 27" unfolding row using lr by simp
  show "row ! 2 = JStr gid" unfolding row by simp
  show "row ! 25 = JStr ''OK'' \<or> row ! 25 = JStr ''ERR: missing points''"
    unfolding row using lr by (simp add: nth_append)
  show "row ! 26 = JStr now_iso" unfolding row using lr by (simp add: nth_append)
qed

lemma build_row_facts:
  "length (build_row lib now_iso fetched nba_id dt key) = 27"
  "build_row lib now_iso fetched nba_id dt key ! 2 = JStr nba_id"
  "build_row lib now_iso fetched nba_id dt key ! 26 = JStr now_iso"
  "build_row lib now_iso fetched nba_id dt key ! 25 = JStr ''OK'' \<or>
   (\<exists>t. build_row lib now_iso fetched nba_id dt key ! 25 = JStr (''ERR: '' @ t))"
proof -
  let ?f = "fetch_adv_row lib now_iso (fst fetched) (snd fetched) nba_id (Some dt) key"
  show "length (build_row lib now_iso fetched nba_id dt key) = 27"
    by (cases ?f) (simp_all add: build_row_def error_row_facts fetch_adv_row_facts)
  show "build_row lib now_iso fetched nba_id dt key ! 2 = JStr nba_id"
    by (cases ?f) (simp_all add: build_row_def error_row_facts fetch_adv_row_facts)
  show "build_row lib now_iso fetched nba_id dt key ! 26 = JStr now_iso"
    by (cases ?f) (simp_all add: build_row_def error_row_facts fetch_adv_row_facts)
  show "build_row lib now_iso fetched nba_id dt key ! 25 = JStr ''OK'' \<or>
   (\<exists>t. build_row lib now_iso fetched nba_id dt key ! 25 = JStr (''ERR: '' @ t))"
  proof (cases ?f)
    case (Inl e)
    then show ?thesis by (simp add: build_row_def error_row_facts)
  next
    case (Inr row)
    from fetch_adv_row_facts(3) [OF this] Inr show ?thesis
      by (auto simp: build_row_def)
  qed
qed

lemma row_for_facts:
  "length (row_for lib fetched clock idx k c) = 27"
  "row_for lib fetched clock idx k c ! 2 = JStr (fst c)"
  "row_for lib fetched clock idx k c ! 26 = JStr (clock k)"
  unfolding row_for_def by (simp_all add: build_row_facts)

lemma last_col_letter: "col_to_a1 (int (length ADV_COLUMNS) - 1) = Some ''AA''"
  unfolding length_ADV_COLUMNS by code_simp

lemma commit_update:
  assumes "(n, row) \<in> set (updates st)"
  shows "UpdateValues n (Some (''A'' @ str_int (int n) @ '':AA'' @ str_int (int n))) row
           \<in> set (commit st)"
proof -
  from assms have "(n, row) \<in> set (sort_key fst (updates st))" by simp
  then have "(\<lambda>(n, vals). UpdateValues n
       (Some (''A'' @ str_int (int n) @ '':AA'' @ str_int (int n))) vals) (n, row)
     \<in> (\<lambda>(n, vals). UpdateValues n
       (Some (''A'' @ str_int (int n) @ '':AA'' @ str_int (int n))) vals) `
        set (sort_key fst (updates st))"
    by (rule imageI)
  then show ?thesis
    unfolding commit_def Let_def last_col_letter by (simp add: case_prod_beta)
qed

lemma commit_append:
  assumes "row \<in> set (appends st)"
  shows "AppendValues (Some ''A:AA'') (appends st) \<in> set (commit st)"
proof -
  from assms have "appends st \<noteq> []" by auto
  then show ?thesis unfolding commit_def Let_def last_col_letter by simp
qed

lemma walk_written_ids:
  assumes "row \<in> snd ` set (updates (walk lib cap fetched clock idx cands
              \<lparr>processed = 0, updates = [], appends = []\<rparr>)) \<union>
            set (appends (walk lib cap fetched clock idx cands
              \<lparr>processed = 0, updates = [], appends = []\<rparr>))"
  shows "\<exists>c\<in>set (todo cap idx cands). row ! 2 = JStr (fst c) \<and> length row = 27"
proof -
  let ?T = "todo cap idx cands"
  from assms consider n where "(n, row) \<in> set (plan_updates lib fetched clock idx 0 ?T)"
    | "row \<in> set (plan_appends lib fetched clock idx 0 ?T)"
    unfolding walk_todo by auto
  then obtain j where "j < length ?T" "row = row_for lib fetched clock idx (0 + j) (?T ! j)"
    unfolding plan_updates_iff plan_appends_iff by cases blast+
  then show ?thesis using row_for_facts by (metis nth_mem)
qed











lemma walk_places_row:
  assumes "k < length (todo cap idx cands)" and "todo cap idx cands ! k = c"
    and "st = walk lib cap fetched clock idx cands \<lparr>processed = 0, updates = [], appends = []\<rparr>"
  shows "processed st = length (todo cap idx cands)"
    and "has_row idx (fst c) \<Longrightarrow>
         \<exists>n. gid_to_row idx (fst c) = Some n \<and>
             (n, row_for lib fetched clock idx k c) \<in> set (updates st)"
    and "\<not> has_row idx (fst c) \<Longrightarrow> row_for lib fetched clock idx k c \<in> set (appends st)"
proof -
  show "processed st = length (todo cap idx cands)" unfolding assms(3) walk_todo by simp
  show "\<exists>n. gid_to_row idx (fst c) = Some n \<and>
             (n, row_for lib fetched clock idx k c) \<in> set (updates st)" if h: "has_row idx (fst c)"
  proof -
    from h obtain n where n: "gid_to_row idx (fst c) = Some n"
      by (auto simp: has_row_def split: option.splits)
    have "(n, row_for lib fetched clock idx k c) \<in>
          set (plan_updates lib fetched clock idx 0 (todo cap idx cands))"
      unfolding plan_updates_iff using assms(1,2) h n by auto
    with n show ?thesis unfolding assms(3) walk_todo by simp
  qed
  show "row_for lib fetched clock idx k c \<in> set (appends st)" if h: "\<not> has_row idx (fst c)"
  proof -
    have "row_for lib fetched clock idx k c \<in>
          set (plan_appends lib fetched clock idx 0 (todo cap idx cands))"
      unfolding plan_appends_iff using assms(1,2) h by auto
    then show ?thesis unfolding assms(3) walk_todo by simp
  qed
qed

lemma error_row_empty_cells:
  "i < 27 \<Longrightarrow> i \<noteq> 2 \<Longrightarrow> i \<noteq> 25 \<Longrightarrow> i \<noteq> 26 \<Longrightarrow> error_row nba_id e now_iso ! i = JStr []"
  unfolding error_row_def length_ADV_COLUMNS adv_column_values adv_column_Status
  by simp

text \<open>
  An example: a table of three rows with the Status \<open>OK\<close>, \<open>ERR: timeout\<close> and \<open>ok\<close>,
  and four candidates, the newest of them not yet in the table. In \<open>sample_fetched\<close> the
  first round gets both box scores and every later round fails; in \<open>sample_down\<close> every
  round fails.
\<close>

definition sample_adv_row :: "string \<Rightarrow> string \<Rightarrow> string list" where
  "sample_adv_row gid status =
     replicate 2 [] @ [gid] @ replicate 22 [] @ [status, ''2026-11-01T09:00:00-08:00'']"

definition sample_table :: "string list list" where
  "sample_table =
     [sample_adv_row ''0022300001'' ''OK'',
      sample_adv_row ''0022300002'' ''ERR: timeout'',
      sample_adv_row ''0022300003'' ''ok'']"

definition sample_index :: adv_index where
  "sample_index =
     adv_rows 2 25 1 2 sample_table
       \<lparr>adv_col = Map.empty, gid_to_row = Map.empty, gid_to_status = Map.empty,
        gid_to_key = Map.empty\<rparr>"

definition sample_cands :: "(string \<times> datetime) list" where
  "sample_cands =
     [(''0022300004'', 63929088000000000), (''0022300003'', 63929001600000000),
      (''0022300002'', 63928915200000000), (''0022300001'', 63928828800000000)]"

definition sample_fetched :: "nat \<Rightarrow> (exn + json) \<times> (exn + json)" where
  "sample_fetched k =
     (if k = 0 then (Inr sample_trad, Inr sample_adv)
      else (Inl (RuntimeError ''NBA fetch failed after 8 tries: NBA HTTP 503: busy''),
            Inl (RuntimeError ''NBA fetch failed after 8 tries: NBA HTTP 503: busy'')))"

definition sample_clock :: "nat \<Rightarrow> string" where
  "sample_clock k = ''2026-11-04T12:0'' @ str_int (int k) @ '':00-08:00''"

definition sample_down :: "nat \<Rightarrow> (exn + json) \<times> (exn + json)" where
  "sample_down k =
     (Inl (RuntimeError ''NBA fetch failed after 8 tries: NBA HTTP 503: busy''),
      Inl (RuntimeError ''NBA fetch failed after 8 tries: NBA HTTP 503: busy''))"

text \<open>
  Claim C3. The number of rows built in a run is the number of updates plus the number of
  appends; it is the smaller of the cap and the number of candidates that are not skipped
  as already OK, so it is at most the cap (for a cap that is not negative; with a negative
  cap nothing is built), and a skipped candidate uses up nothing of the cap. Every row
  written belongs to one of the first \<open>MAX_GAMES_PER_RUN\<close> candidates that are not skipped:
  what lies beyond the cap is left as it is, for a later run.
\<close>

theorem walk_cap:
  "processed (walk lib cap fetched clock idx cands \<lparr>processed = 0, updates = [], appends = []\<rparr>) =
     length (updates (walk lib cap fetched clock idx cands
               \<lparr>processed = 0, updates = [], appends = []\<rparr>)) +
     length (appends (walk lib cap fetched clock idx cands
               \<lparr>processed = 0, updates = [], appends = []\<rparr>)) \<and>
   processed (walk lib cap fetched clock idx cands \<lparr>processed = 0, updates = [], appends = []\<rparr>) =
     min (nat cap) (length (filter (\<lambda>c. \<not> skip_ok idx (fst c)) cands)) \<and>
   int (processed (walk lib cap fetched clock idx cands
          \<lparr>processed = 0, updates = [], appends = []\<rparr>)) \<le> max 0 cap \<and>
   (0 \<le> cap \<longrightarrow>
      int (processed (walk lib cap fetched clock idx cands
             \<lparr>processed = 0, updates = [], appends = []\<rparr>)) \<le> cap) \<and>
   (\<forall>row\<in>snd ` set (updates (walk lib cap fetched clock idx cands
              \<lparr>processed = 0, updates = [], appends = []\<rparr>)) \<union>
            set (appends (walk lib cap fetched clock idx cands
              \<lparr>processed = 0, updates = [], appends = []\<rparr>)).
      \<exists>c\<in>set (take (nat cap) (filter (\<lambda>c. \<not> skip_ok idx (fst c)) cands)).
        row ! adv_column ''Game ID'' = JStr (fst c))"
proof -
  let ?st = "walk lib cap fetched clock idx cands \<lparr>processed = 0, updates = [], appends = []\<rparr>"
  have a: "processed ?st = length (updates ?st) + length (appends ?st)"
    unfolding walk_todo by (simp add: plan_lengths)
  have b: "processed ?st = min (nat cap) (length (filter (\<lambda>c. \<not> skip_ok idx (fst c)) cands))"
    unfolding walk_todo todo_def by (simp add: min.commute)
  from b have c: "int (processed ?st) \<le> max 0 cap" by linarith
  from b have d: "0 \<le> cap \<longrightarrow> int (processed ?st) \<le> cap" by linarith
  have e: "\<exists>c\<in>set (take (nat cap) (filter (\<lambda>c. \<not> skip_ok idx (fst c)) cands)).
        row ! adv_column ''Game ID'' = JStr (fst c)"
    if "row \<in> snd ` set (updates ?st) \<union> set (appends ?st)" for row
    using walk_written_ids [OF that] unfolding todo_def adv_column_values by blast
  from a b c d e show ?thesis by blast
qed

theorem walk_cap_witness:
  "(0::int) \<le> 1 \<and>
   processed (walk sample_lib 1 sample_fetched sample_clock sample_index sample_cands
      \<lparr>processed = 0, updates = [], appends = []\<rparr>) = 1 \<and>
   int (processed (walk sample_lib 1 sample_fetched sample_clock sample_index sample_cands
      \<lparr>processed = 0, updates = [], appends = []\<rparr>)) \<le> 1 \<and>
   length (filter (\<lambda>c. \<not> skip_ok sample_index (fst c)) sample_cands) = 2"
proof -
  note t = walk_cap [of sample_lib 1 sample_fetched sample_clock sample_index sample_cands]
  have n: "length (filter (\<lambda>c. \<not> skip_ok sample_index (fst c)) sample_cands) = 2"
    by code_simp
  have z: "(0::int) \<le> 1" by simp
  from t [THEN conjunct2, THEN conjunct1] have
    p: "processed (walk sample_lib 1 sample_fetched sample_clock sample_index sample_cands
      \<lparr>processed = 0, updates = [], appends = []\<rparr>) = 1"
    unfolding n by simp
  from t [THEN conjunct2, THEN conjunct2, THEN conjunct2, THEN conjunct1, THEN mp, OF z]
  have "int (processed (walk sample_lib 1 sample_fetched sample_clock sample_index sample_cands
      \<lparr>processed = 0, updates = [], appends = []\<rparr>)) \<le> 1" .
  with z p n show ?thesis by (intro conjI)
qed



text \<open>
  Claim C5. \<open>todo cap idx cands\<close> lists the candidates the loop processes, in order.
  When \<open>fetch_adv_row\<close> raises \<open>e\<close> for the \<open>k\<close>-th of them, the loop goes on to the end of
  the list, and the row made in the \<open>except\<close> branch is written: as an update of the row
  of its Game ID if the index has one, and among the appended rows otherwise. The row has
  27 cells, all empty but the Game ID, the Status \<open>ERR: \<close> followed by the first 160
  characters of the text of \<open>e\<close>, and the time stamp taken for this candidate.
\<close>

theorem walk_error_row_written:
  "st = walk lib cap fetched clock idx cands \<lparr>processed = 0, updates = [], appends = []\<rparr> \<and>
   k < length (todo cap idx cands) \<and> todo cap idx cands ! k = (nba_id, dt) \<and>
   fetch_adv_row lib (clock k) (fst (fetched k)) (snd (fetched k)) nba_id (Some dt)
     (case gid_to_key idx nba_id of None \<Rightarrow> [] | Some key \<Rightarrow> key) = Inl e \<and>
   row = error_row nba_id e (clock k) \<longrightarrow>
     processed st = length (todo cap idx cands) \<and>
     (has_row idx nba_id \<longrightarrow>
        (\<exists>n. gid_to_row idx nba_id = Some n \<and>
           UpdateValues n (Some (''A'' @ str_int (int n) @ '':AA'' @ str_int (int n))) row
             \<in> set (commit st))) \<and>
     (\<not> has_row idx nba_id \<longrightarrow>
        row \<in> set (appends st) \<and> AppendValues (Some ''A:AA'') (appends st) \<in> set (commit st)) \<and>
     length row = 27 \<and>
     row ! adv_column ''Game ID'' = JStr nba_id \<and>
     row ! adv_column ''Status'' = JStr (''ERR: '' @ take 160 (exn_str e)) \<and>
     row ! adv_column ''Last Attempt'' = JStr (clock k) \<and>
     (\<forall>i<27. i \<noteq> 2 \<and> i \<noteq> 25 \<and> i \<noteq> 26 \<longrightarrow> row ! i = JStr [])"
proof
  assume a: "st = walk lib cap fetched clock idx cands \<lparr>processed = 0, updates = [], appends = []\<rparr> \<and>
   k < length (todo cap idx cands) \<and> todo cap idx cands ! k = (nba_id, dt) \<and>
   fetch_adv_row lib (clock k) (fst (fetched k)) (snd (fetched k)) nba_id (Some dt)
     (case gid_to_key idx nba_id of None \<Rightarrow> [] | Some key \<Rightarrow> key) = Inl e \<and>
   row = error_row nba_id e (clock k)"
  then have st: "st = walk lib cap fetched clock idx cands
      \<lparr>processed = 0, updates = [], appends = []\<rparr>"
    and k: "k < length (todo cap idx cands)" and c: "todo cap idx cands ! k = (nba_id, dt)"
    and f: "fetch_adv_row lib (clock k) (fst (fetched k)) (snd (fetched k)) nba_id (Some dt)
     (case gid_to_key idx nba_id of None \<Rightarrow> [] | Some key \<Rightarrow> key) = Inl e"
    and row: "row = error_row nba_id e (clock k)"
    by simp_all
  have rf: "row_for lib fetched clock idx k (nba_id, dt) = row"
    unfolding row_for_def build_row_def row using f by simp
  note w = walk_places_row [OF k c st, unfolded rf fst_conv]
  have 1: "\<exists>n. gid_to_row idx nba_id = Some n \<and>
           UpdateValues n (Some (''A'' @ str_int (int n) @ '':AA'' @ str_int (int n))) row
             \<in> set (commit st)" if "has_row idx nba_id"
    using w(2) [OF that] commit_update by blast
  have 2: "row \<in> set (appends st) \<and> AppendValues (Some ''A:AA'') (appends st) \<in> set (commit st)"
    if "\<not> has_row idx nba_id"
    using w(3) [OF that] commit_append by blast
  have 3: "\<forall>i<27. i \<noteq> 2 \<and> i \<noteq> 25 \<and> i \<noteq> 26 \<longrightarrow> row ! i = JStr []"
    unfolding row using error_row_empty_cells by blast
  from w(1) 1 2 3 error_row_facts [of nba_id e "clock k", folded row]
  show "processed st = length (todo cap idx cands) \<and>
     (has_row idx nba_id \<longrightarrow>
        (\<exists>n. gid_to_row idx nba_id = Some n \<and>
           UpdateValues n (Some (''A'' @ str_int (int n) @ '':AA'' @ str_int (int n))) row
             \<in> set (commit st))) \<and>
     (\<not> has_row idx nba_id \<longrightarrow>
        row \<in> set (appends st) \<and> AppendValues (Some ''A:AA'') (appends st) \<in> set (commit st)) \<and>
     length row = 27 \<and>
     row ! adv_column ''Game ID'' = JStr nba_id \<and>
     row ! adv_column ''Status'' = JStr (''ERR: '' @ take 160 (exn_str e)) \<and>
     row ! adv_column ''Last Attempt'' = JStr (clock k) \<and>
     (\<forall>i<27. i \<noteq> 2 \<and> i \<noteq> 25 \<and> i \<noteq> 26 \<longrightarrow> row ! i = JStr [])"
    unfolding adv_column_values adv_column_Status by blast
qed

theorem walk_error_row_written_witness:
  "todo 12 sample_index sample_cands ! 1 = (''0022300002'', 63928915200000000) \<and>
   has_row sample_index ''0022300002'' \<and>
   processed (walk sample_lib 12 sample_fetched sample_clock sample_index sample_cands
      \<lparr>processed = 0, updates = [], appends = []\<rparr>) = 2 \<and>
   UpdateValues 3 (Some ''A3:AA3'')
     (error_row ''0022300002''
        (RuntimeError ''NBA fetch failed after 8 tries: NBA HTTP 503: busy'') (sample_clock 1))
     \<in> set (commit (walk sample_lib 12 sample_fetched sample_clock sample_index sample_cands
            \<lparr>processed = 0, updates = [], appends = []\<rparr>)) \<and>
   todo 12 sample_index sample_cands ! 0 = (''0022300004'', 63929088000000000) \<and>
   \<not> has_row sample_index ''0022300004'' \<and>
   error_row ''0022300004''
     (RuntimeError ''NBA fetch failed after 8 tries: NBA HTTP 503: busy'') (sample_clock 0)
     \<in> set (appends (walk sample_lib 12 sample_down sample_clock sample_index sample_cands
            \<lparr>processed = 0, updates = [], appends = []\<rparr>)) \<and>
   AppendValues (Some ''A:AA'')
     (appends (walk sample_lib 12 sample_down sample_clock sample_index sample_cands
            \<lparr>processed = 0, updates = [], appends = []\<rparr>))
     \<in> set (commit (walk sample_lib 12 sample_down sample_clock sample_index sample_cands
            \<lparr>processed = 0, updates = [], appends = []\<rparr>))"
proof -
  let ?st = "walk sample_lib 12 sample_fetched sample_clock sample_index sample_cands
      \<lparr>processed = 0, updates = [], appends = []\<rparr>"
  let ?sd = "walk sample_lib 12 sample_down sample_clock sample_index sample_cands
      \<lparr>processed = 0, updates = [], appends = []\<rparr>"
  let ?e = "RuntimeError ''NBA fetch failed after 8 tries: NBA HTTP 503: busy''"
  let ?row = "error_row ''0022300002'' ?e (sample_clock 1)"
  let ?arow = "error_row ''0022300004'' ?e (sample_clock 0)"
  have k: "1 < length (todo 12 sample_index sample_cands)" by code_simp
  have k0: "0 < length (todo 12 sample_index sample_cands)" by code_simp
  have l: "length (todo 12 sample_index sample_cands) = 2" by code_simp
  have c: "todo 12 sample_index sample_cands ! 1 = (''0022300002'', 63928915200000000)"
    by code_simp
  have c0: "todo 12 sample_index sample_cands ! 0 = (''0022300004'', 63929088000000000)"
    by code_simp
  have f: "fetch_adv_row sample_lib (sample_clock 1) (fst (sample_fetched 1))
      (snd (sample_fetched 1)) ''0022300002'' (Some 63928915200000000)
      (case gid_to_key sample_index ''0022300002'' of None \<Rightarrow> [] | Some key \<Rightarrow> key) = Inl ?e"
    by code_simp
  have f0: "fetch_adv_row sample_lib (sample_clock 0) (fst (sample_down 0))
      (snd (sample_down 0)) ''0022300004'' (Some 63929088000000000)
      (case gid_to_key sample_index ''0022300004'' of None \<Rightarrow> [] | Some key \<Rightarrow> key) = Inl ?e"
    by code_simp
  have h: "has_row sample_index ''0022300002''" by code_simp
  have h0: "\<not> has_row sample_index ''0022300004''" by code_simp
  have g: "gid_to_row sample_index ''0022300002'' = Some 3" by code_simp
  have s: "''A'' @ str_int (int 3) @ '':AA'' @ str_int (int 3) = ''A3:AA3''" by code_simp
  note t = walk_error_row_written [of ?st sample_lib 12 sample_fetched sample_clock sample_index
      sample_cands 1 "''0022300002''" 63928915200000000 ?e ?row, THEN mp,
      OF conjI [OF refl conjI [OF k conjI [OF c conjI [OF f refl]]]]]
  note t0 = walk_error_row_written [of ?sd sample_lib 12 sample_down sample_clock sample_index
      sample_cands 0 "''0022300004''" 63929088000000000 ?e ?arow, THEN mp,
      OF conjI [OF refl conjI [OF k0 conjI [OF c0 conjI [OF f0 refl]]]]]
  from t [THEN conjunct1] l have p: "processed ?st = 2" by simp
  from t [THEN conjunct2, THEN conjunct1, THEN mp, OF h] g s
  have u: "UpdateValues 3 (Some ''A3:AA3'') ?row \<in> set (commit ?st)" by auto
  note a = t0 [THEN conjunct2, THEN conjunct2, THEN conjunct1, THEN mp, OF h0]
  from c h p u c0 h0 a [THEN conjunct1] a [THEN conjunct2] show ?thesis by (intro conjI)
qed


























end
